theory Spec2Isabelle
  imports Complex_Main "HOL-Library.AList" "HOL-Library.Multiset"
begin

chapter \<open>The embedding\<close>

section \<open>Worker task protocol (initWorker)\<close>

text \<open>
  \<^verbatim>\<open>initWorker\<close> wraps a web worker in a callback interface.  Its closure state is the
  \<^verbatim>\<open>tasks\<close> table, the counters \<^verbatim>\<open>globalMsgId\<close> and \<^verbatim>\<open>activeTasks\<close>; its effects are the
  messages posted to the worker and the invocations of the callers' callbacks.  Both
  effects are recorded in the state, in the order they happen.

  A JavaScript object with string keys is the association list of its properties in the
  order in which \<^verbatim>\<open>Object.keys\<close> lists them: the keys that are array indices first, in
  ascending order, then the other keys in the order they were created.
  \<^const>\<open>map_of\<close> reads a property and \<^const>\<open>AList.update\<close> assigns one, a new one at the end;
  the objects built below get their keys in the order \<^verbatim>\<open>Object.keys\<close> lists those of another
  object, so that a new key does come last.  A callback is
  an opaque identifier of type \<^typ>\<open>'c\<close>, a feature one of type \<^typ>\<open>'f\<close>.  An uncaught
  JavaScript exception is the value \<open>Inl TypeError\<close>.
\<close>

datatype error = TypeError

type_synonym header = "(string \<times> int) list"

type_synonym 'f json = "(string \<times> 'f list) list"

datatype 'f body =
    MError string
  | MHeader header
  | MData string "'f list"
  | MDone
  | MOther string

record 'f msg =
  msg_id :: nat
  msg_body :: "'f body"

datatype posted =
    Start nat string
  | Cancel nat
  | Continue nat

datatype cberr =
    Payload string
  | Message string

record ('c, 'f) call =
  call_cb :: 'c
  call_err :: "cberr option"
  call_result :: "'f json option"

record ('c, 'f) task =
  callback :: 'c
  header :: "header option"
  result :: "'f json option"

record ('c, 'f) worker =
  tasks :: "nat \<Rightarrow> ('c, 'f) task option"
  globalMsgId :: nat
  activeTasks :: int
  outbox :: "posted list"
  calls :: "('c, 'f) call list"

definition initWorker :: "('c, 'f) worker" where
  "initWorker = \<lparr>tasks = Map.empty, globalMsgId = 0, activeTasks = 0, outbox = [], calls = []\<rparr>"

definition postMessage :: "posted \<Rightarrow> ('c, 'f) worker \<Rightarrow> ('c, 'f) worker" where
  "postMessage m w = w\<lparr>outbox := outbox w @ [m]\<rparr>"

definition invoke :: "'c \<Rightarrow> cberr option \<Rightarrow> 'f json option \<Rightarrow> ('c, 'f) worker \<Rightarrow> ('c, 'f) worker" where
  "invoke cb e r w = w\<lparr>calls := calls w @ [\<lparr>call_cb = cb, call_err = e, call_result = r\<rparr>]\<rparr>"

text \<open>\<^verbatim>\<open>startTask(payload, callback)\<close>; the returned id is the first component.\<close>

definition startTask :: "string \<Rightarrow> 'c \<Rightarrow> ('c, 'f) worker \<Rightarrow> nat \<times> ('c, 'f) worker" where
  "startTask payload cb w =
     (let msgId = globalMsgId w in
      (msgId,
       postMessage (Start msgId payload)
         (w\<lparr>activeTasks := activeTasks w + 1,
            globalMsgId := globalMsgId w + 1,
            tasks := (tasks w)(msgId \<mapsto> \<lparr>callback = cb, header = None, result = None\<rparr>)\<rparr>)))"

text \<open>\<^verbatim>\<open>cancelTask(id)\<close>: \<^verbatim>\<open>if (tasks[id]) worker.postMessage(cancel); return delete tasks[id]\<close>.\<close>

definition cancelTask :: "nat \<Rightarrow> ('c, 'f) worker \<Rightarrow> ('c, 'f) worker" where
  "cancelTask i w =
     (let w' = (if tasks w i \<noteq> None then postMessage (Cancel i) w else w)
      in w'\<lparr>tasks := (tasks w')(i := None)\<rparr>)"

text \<open>\<^verbatim>\<open>initJSON(header)\<close>: one empty feature collection per key of the header.\<close>

definition initJSON :: "header \<Rightarrow> 'f json" where
  "initJSON h = foldl (\<lambda>json key. AList.update key [] json) [] (map fst h)"

text \<open>
  \<^verbatim>\<open>checkJSON(json, header)\<close>: \<^verbatim>\<open>Object.keys(header).every(checkFeatureCount)\<close>.  \<^verbatim>\<open>every\<close>
  stops at the first key that fails; reading \<^verbatim>\<open>.features\<close> of a missing collection throws.
\<close>

fun checkJSON :: "'f json \<Rightarrow> header \<Rightarrow> error + bool" where
  "checkJSON json [] = Inr True"
| "checkJSON json ((key, n) # h) =
     (case map_of json key of
        None \<Rightarrow> Inl TypeError
      | Some features \<Rightarrow>
          if int (length features) = n then checkJSON json h else Inr False)"

text \<open>The clean-up after the \<^verbatim>\<open>switch\<close>: \<^verbatim>\<open>delete tasks[msg.id]; activeTasks --\<close>.\<close>

definition cleanUp :: "nat \<Rightarrow> ('c, 'f) worker \<Rightarrow> ('c, 'f) worker" where
  "cleanUp i w = w\<lparr>tasks := (tasks w)(i := None), activeTasks := activeTasks w - 1\<rparr>"

definition setTask :: "nat \<Rightarrow> ('c, 'f) task \<Rightarrow> ('c, 'f) worker \<Rightarrow> ('c, 'f) worker" where
  "setTask i t w = w\<lparr>tasks := (tasks w)(i \<mapsto> t)\<rparr>"

definition handleMsg :: "('c, 'f) worker \<Rightarrow> 'f msg \<Rightarrow> error + ('c, 'f) worker" where
  "handleMsg w msg =
     (case tasks w (msg_id msg) of
        None \<Rightarrow> Inr (postMessage (Cancel (msg_id msg)) w)
      | Some task \<Rightarrow>
          (case msg_body msg of
             MError payload \<Rightarrow>
               Inr (cleanUp (msg_id msg) (invoke (callback task) (Some (Payload payload)) None w))
           | MHeader h \<Rightarrow>
               Inr (postMessage (Continue (msg_id msg))
                      (setTask (msg_id msg) (task\<lparr>header := Some h, result := Some (initJSON h)\<rparr>) w))
           | MData key payload \<Rightarrow>
               (case result task of
                  None \<Rightarrow> Inl TypeError
                | Some json \<Rightarrow>
                    (case map_of json key of
                       None \<Rightarrow> Inl TypeError
                     | Some features \<Rightarrow>
                         Inr (postMessage (Continue (msg_id msg))
                                (setTask (msg_id msg)
                                   (task\<lparr>result := Some (AList.update key (features @ payload) json)\<rparr>) w))))
           | MDone \<Rightarrow>
               (case header task of
                  None \<Rightarrow> Inl TypeError
                | Some h \<Rightarrow>
                    (case result task of
                       None \<Rightarrow> Inl TypeError
                     | Some json \<Rightarrow>
                         (case checkJSON json h of
                            Inl e \<Rightarrow> Inl e
                          | Inr ok \<Rightarrow>
                              Inr (cleanUp (msg_id msg)
                                     (invoke (callback task)
                                        (if ok then None
                                         else Some (Message ''ERROR: JSON from worker failed checks!''))
                                        (Some json) w)))))
           | MOther ty \<Rightarrow>
               Inr (cleanUp (msg_id msg)
                      (invoke (callback task)
                         (Some (Message ''ERROR: worker sent bad message type!'')) None w))))"

text \<open>A sequence of incoming messages, handled one after the other.\<close>

fun handleMsgs :: "('c, 'f) worker \<Rightarrow> 'f msg list \<Rightarrow> error + ('c, 'f) worker" where
  "handleMsgs w [] = Inr w"
| "handleMsgs w (m # ms) =
     (case handleMsg w m of Inl e \<Rightarrow> Inl e | Inr w' \<Rightarrow> handleMsgs w' ms)"

subsection \<open>Vocabulary for the protocol's properties\<close>

text \<open>
  The data messages of one task, the features they carry for one field, and a result
  object given by its fields' feature lists.
\<close>

definition dataMsgs :: "nat \<Rightarrow> (string \<times> 'f list) list \<Rightarrow> 'f msg list" where
  "dataMsgs i ds = map (\<lambda>d. \<lparr>msg_id = i, msg_body = MData (fst d) (snd d)\<rparr>) ds"

definition collect :: "string \<Rightarrow> (string \<times> 'f list) list \<Rightarrow> 'f list" where
  "collect key ds = concat (map snd (filter (\<lambda>d. fst d = key) ds))"

definition tabulate :: "header \<Rightarrow> (string \<Rightarrow> 'f list) \<Rightarrow> 'f json" where
  "tabulate h g = map (\<lambda>(k, n). (k, g k)) h"

text \<open>
  The three entry points as one alphabet.  An exception thrown by \<^const>\<open>handleMsg\<close> leaves the
  closure state as it was: both throwing paths throw before they assign anything.
\<close>

datatype ('c, 'f) action = OpStart string 'c | OpCancel nat | OpMsg "'f msg"

fun applyOp :: "('c, 'f) action \<Rightarrow> ('c, 'f) worker \<Rightarrow> ('c, 'f) worker" where
  "applyOp (OpStart payload cb) w = snd (startTask payload cb w)"
| "applyOp (OpCancel i) w = cancelTask i w"
| "applyOp (OpMsg m) w = (case handleMsg w m of Inl e \<Rightarrow> w | Inr w' \<Rightarrow> w')"

fun runOps :: "('c, 'f) action list \<Rightarrow> ('c, 'f) worker \<Rightarrow> ('c, 'f) worker" where
  "runOps [] w = w"
| "runOps (x # xs) w = runOps xs (applyOp x w)"

text \<open>The number of \<^verbatim>\<open>cancelTask\<close> calls of a run that hit a task still in the table.\<close>

fun canceledPending :: "('c, 'f) action list \<Rightarrow> ('c, 'f) worker \<Rightarrow> nat" where
  "canceledPending [] w = 0"
| "canceledPending (OpCancel i # xs) w =
     (if tasks w i \<noteq> None then 1 else 0) + canceledPending xs (applyOp (OpCancel i) w)"
| "canceledPending (x # xs) w = canceledPending xs (applyOp x w)"

text \<open>The message kinds after which \<^verbatim>\<open>handleMsg\<close> reaches its clean-up.\<close>

fun terminal :: "'f body \<Rightarrow> bool" where
  "terminal (MError p) = True"
| "terminal MDone = True"
| "terminal (MOther ty) = True"
| "terminal (MHeader h) = False"
| "terminal (MData k fs) = False"

definition wellFormed :: "('c, 'f) worker \<Rightarrow> bool" where
  "wellFormed w = (finite (dom (tasks w)) \<and> (\<forall>i \<in> dom (tasks w). i < globalMsgId w))"

section \<open>Style functions (buildStyleFunc) and layer setup\<close>

text \<open>
  \<^verbatim>\<open>buildStyleFunc\<close> compiles the value of a style property into a function of
  \<^verbatim>\<open>(zoom, feature)\<close>.  The values that occur are typed as follows.

  \<^item> A JavaScript number is a real number: floating-point rounding is left out, a zero
    has no sign, and \<^verbatim>\<open>NaN\<close> and the infinities are not values of the model.
  \<^item> A value is \<^verbatim>\<open>undefined\<close> or a JSON value: \<^verbatim>\<open>null\<close>, a boolean, a number, a string, an
    array, or an object (its properties, with distinct keys).  \<open>Rgba r g b a\<close> is the
    string \<^verbatim>\<open>"rgba(r, g, b, a)"\<close> that \<^verbatim>\<open>interpColor\<close> prints, kept as the four numbers printed; no
    style document contains it.
  \<^item> A call returns a value, throws, or is \<open>NotModelled\<close>.  The model is \<open>NotModelled\<close> where
    the code's arithmetic leaves the real numbers (a power or a quotient that is
    \<^verbatim>\<open>NaN\<close> or infinite), where JavaScript converts a value in a way the model does not
    follow (a string that is not a sequence of digits, an array or an object used as a
    number), and where the text of an \<open>Rgba\<close> string would be read.  It says nothing about
    what the code does there.
  \<^item> The vendored colour parser \<^verbatim>\<open>parseCSSColor\<close> is an argument of the model; applied to a
    string it returns the four components, or nothing for \<^verbatim>\<open>null\<close>, or throws.
\<close>

datatype val =
    Undefined
  | Null
  | Bool bool
  | Num real
  | Str string
  | Arr "val list"
  | Obj "(string \<times> val) list"
  | Rgba int int int real

datatype 'r outcome = Returns 'r | Throws error | NotModelled

definition bindO :: "'a outcome \<Rightarrow> ('a \<Rightarrow> 'b outcome) \<Rightarrow> 'b outcome" where
  "bindO m f = (case m of Returns a \<Rightarrow> f a | Throws e \<Rightarrow> Throws e | NotModelled \<Rightarrow> NotModelled)"

text \<open>
  Reading a property.  \<^verbatim>\<open>v.length\<close> and \<^verbatim>\<open>v[i]\<close> throw when \<^verbatim>\<open>v\<close> is \<^verbatim>\<open>undefined\<close> or \<^verbatim>\<open>null\<close>, and are
  \<^verbatim>\<open>undefined\<close> for a boolean or a number; a string has its length and its characters, an
  array its length and its elements, an object the properties it was given.
\<close>

fun decimal :: "nat \<Rightarrow> string" where
  "decimal n = (if n < 10 then [char_of (48 + n)] else decimal (n div 10) @ [char_of (48 + n mod 10)])"

declare decimal.simps [simp del]

definition property :: "(string \<times> val) list \<Rightarrow> string \<Rightarrow> val" where
  "property kvs key = (case map_of kvs key of None \<Rightarrow> Undefined | Some v \<Rightarrow> v)"

definition lengthOf :: "val \<Rightarrow> val outcome" where
  "lengthOf v =
     (case v of
        Undefined \<Rightarrow> Throws TypeError
      | Null \<Rightarrow> Throws TypeError
      | Bool b \<Rightarrow> Returns Undefined
      | Num r \<Rightarrow> Returns Undefined
      | Str s \<Rightarrow> Returns (Num (real (length s)))
      | Arr xs \<Rightarrow> Returns (Num (real (length xs)))
      | Obj kvs \<Rightarrow> Returns (property kvs ''length'')
      | Rgba r g b a \<Rightarrow> NotModelled)"

definition elemOf :: "val \<Rightarrow> nat \<Rightarrow> val outcome" where
  "elemOf v i =
     (case v of
        Undefined \<Rightarrow> Throws TypeError
      | Null \<Rightarrow> Throws TypeError
      | Bool b \<Rightarrow> Returns Undefined
      | Num r \<Rightarrow> Returns Undefined
      | Str s \<Rightarrow> Returns (if i < length s then Str [s ! i] else Undefined)
      | Arr xs \<Rightarrow> Returns (if i < length xs then xs ! i else Undefined)
      | Obj kvs \<Rightarrow> Returns (property kvs (decimal i))
      | Rgba r g b a \<Rightarrow> NotModelled)"

text \<open>Whether a value counts as true in a condition.\<close>

definition truthy :: "val \<Rightarrow> bool" where
  "truthy v =
     (case v of
        Undefined \<Rightarrow> False
      | Null \<Rightarrow> False
      | Bool b \<Rightarrow> b
      | Num r \<Rightarrow> r \<noteq> 0
      | Str s \<Rightarrow> s \<noteq> []
      | Arr xs \<Rightarrow> True
      | Obj kvs \<Rightarrow> True
      | Rgba r g b a \<Rightarrow> True)"

text \<open>
  The number a value is converted to when it is compared with a number or subtracted
  from one; \<^const>\<open>None\<close> is \<^verbatim>\<open>NaN\<close>.  Of the strings, the sequences of decimal digits are
  converted.
\<close>

definition isDigits :: "string \<Rightarrow> bool" where
  "isDigits s = (s \<noteq> [] \<and> list_all (\<lambda>c. 48 \<le> (of_char c :: nat) \<and> (of_char c :: nat) \<le> 57) s)"

definition digitsValue :: "string \<Rightarrow> nat" where
  "digitsValue s = foldl (\<lambda>n c. 10 * n + (of_char c - 48)) 0 s"

definition toNumber :: "val \<Rightarrow> real option outcome" where
  "toNumber v =
     (case v of
        Undefined \<Rightarrow> Returns None
      | Null \<Rightarrow> Returns (Some 0)
      | Bool b \<Rightarrow> Returns (Some (if b then 1 else 0))
      | Num r \<Rightarrow> Returns (Some r)
      | Str s \<Rightarrow> (if isDigits s then Returns (Some (real (digitsValue s))) else NotModelled)
      | Arr xs \<Rightarrow> NotModelled
      | Obj kvs \<Rightarrow> NotModelled
      | Rgba r g b a \<Rightarrow> NotModelled)"

text \<open>\<^verbatim>\<open>v < 2\<close>, which is false when \<^verbatim>\<open>v\<close> converts to \<^verbatim>\<open>NaN\<close>.\<close>

definition lessThan2 :: "val \<Rightarrow> bool outcome" where
  "lessThan2 v = bindO (toNumber v) (\<lambda>n. Returns (case n of None \<Rightarrow> False | Some r \<Rightarrow> r < 2))"

type_synonym colorParser = "string \<Rightarrow> (real \<times> real \<times> real \<times> real) option outcome"

datatype interpolator = Linear | Color | Step

text \<open>\<^verbatim>\<open>getInterpolator(sampleVal)\<close> chooses by the type of the first stop's output.\<close>

definition getInterpolator :: "colorParser \<Rightarrow> val \<Rightarrow> interpolator outcome" where
  "getInterpolator parseCSSColor sampleVal =
     (case sampleVal of
        Num n \<Rightarrow> Returns Linear
      | Str s \<Rightarrow> bindO (parseCSSColor s) (\<lambda>c. Returns (if c \<noteq> None then Color else Step))
      | Rgba r g b a \<Rightarrow> NotModelled
      | _ \<Rightarrow> Returns Step)"

text \<open>\<^verbatim>\<open>Math.round\<close> rounds to the nearest integer, a half upwards.\<close>

definition mathRound :: "real \<Rightarrow> int" where
  "mathRound x = \<lfloor>x + 1 / 2\<rfloor>"

definition interpColor :: "real \<times> real \<times> real \<times> real \<Rightarrow> real \<times> real \<times> real \<times> real \<Rightarrow> real \<Rightarrow> val" where
  "interpColor c0 c1 t =
     (case (c0, c1) of ((r0, g0, b0, a0), (r1, g1, b1, a1)) \<Rightarrow>
        Rgba (mathRound (r0 + t * (r1 - r0))) (mathRound (g0 + t * (g1 - g0)))
             (mathRound (b0 + t * (b1 - b0))) (a0 + t * (a1 - a0)))"

text \<open>
  An argument of \<^verbatim>\<open>interpColor(parseCSSColor(v1), parseCSSColor(v2), t)\<close>: the parser calls
  \<^verbatim>\<open>replace\<close> on its argument, which throws unless that is a string, and \<^verbatim>\<open>interpColor\<close> indexes
  the parser's result, which throws when that is \<^verbatim>\<open>null\<close>.
\<close>

definition parseColorArg :: "colorParser \<Rightarrow> val \<Rightarrow> (real \<times> real \<times> real \<times> real) outcome" where
  "parseColorArg parseCSSColor v =
     (case v of
        Str s \<Rightarrow> bindO (parseCSSColor s) (\<lambda>c. case c of None \<Rightarrow> Throws TypeError | Some rgba \<Rightarrow> Returns rgba)
      | Rgba r g b a \<Rightarrow> NotModelled
      | _ \<Rightarrow> Throws TypeError)"

text \<open>
  The three interpolators, applied to \<^verbatim>\<open>(v1, v2, t)\<close>.  The factor is \<^const>\<open>None\<close> when the model
  has not computed it; the step function does not read it.  The linear interpolator is
  \<^verbatim>\<open>v1 + t * (v2 - v1)\<close>, modelled for numbers.
\<close>

definition interpolate :: "colorParser \<Rightarrow> interpolator \<Rightarrow> val \<Rightarrow> val \<Rightarrow> real option \<Rightarrow> val outcome" where
  "interpolate parseCSSColor f v1 v2 t =
     (case f of
        Linear \<Rightarrow>
          (case (v1, v2, t) of
             (Num a, Num b, Some t') \<Rightarrow> Returns (Num (a + t' * (b - a)))
           | _ \<Rightarrow> NotModelled)
      | Color \<Rightarrow>
          bindO (parseColorArg parseCSSColor v1) (\<lambda>c0.
          bindO (parseColorArg parseCSSColor v2) (\<lambda>c1.
            case t of None \<Rightarrow> NotModelled | Some t' \<Rightarrow> Returns (interpColor c0 c1 t')))
      | Step \<Rightarrow> Returns v1)"

text \<open>
  \<^verbatim>\<open>Math.pow(b, e)\<close>: 1 when the exponent is 0; for a positive base the real power; for
  base 0 it is 0 with a positive exponent and infinite with a negative one; for a
  negative base it is the integer power when the exponent is an integer and \<^verbatim>\<open>NaN\<close>
  otherwise.  \<^const>\<open>None\<close> is a result that is not a real number.
\<close>

definition mathPow :: "real \<Rightarrow> real \<Rightarrow> real option" where
  "mathPow b e =
     (if e = 0 then Some 1
      else if 0 < b then Some (b powr e)
      else if b = 0 then (if 0 < e then Some 0 else None)
      else if e = real_of_int \<lfloor>e\<rfloor> then Some (b powi \<lfloor>e\<rfloor>)
      else None)"

text \<open>
  \<^verbatim>\<open>interpFactor(base, x0, x, x1)\<close>.  The result is \<^const>\<open>None\<close> when the model does not compute it:
  one of the two powers is not a real number, or the denominator is 0.
\<close>

definition interpFactor :: "real \<Rightarrow> real \<Rightarrow> real \<Rightarrow> real \<Rightarrow> real option" where
  "interpFactor base x0 x x1 =
     (let range = x1 - x0 in
      if range = 0 then Some 0
      else
        let dx = x - x0 in
        if base = 1 then Some (dx / range)
        else
          (case (mathPow base dx, mathPow base range) of
             (Some p, Some q) \<Rightarrow> if q - 1 = 0 then None else Some ((p - 1) / (q - 1))
           | _ \<Rightarrow> None))"

text \<open>\<^verbatim>\<open>Array.prototype.findIndex\<close>; \<^const>\<open>None\<close> is the result \<open>- 1\<close>.\<close>

fun findIndex :: "('x \<Rightarrow> bool) \<Rightarrow> 'x list \<Rightarrow> nat option" where
  "findIndex p [] = None"
| "findIndex p (x # xs) = (if p x then Some 0 else map_option Suc (findIndex p xs))"

text \<open>
  \<^verbatim>\<open>buildStopFunc(stops, base = 1)\<close> reads \<^verbatim>\<open>stops.length\<close> and \<^verbatim>\<open>stops[0][1]\<close> and returns a closure
  over \<^verbatim>\<open>stops\<close>, \<^verbatim>\<open>base\<close> and the interpolator it has chosen.  The closure is the record of
  what it captures, and \<open>applyStopFunc\<close> is its body.
\<close>

record stopFunc =
  sf_stops :: val
  sf_base :: real
  sf_interpolate :: interpolator

definition buildStopFunc :: "colorParser \<Rightarrow> val \<Rightarrow> real option \<Rightarrow> stopFunc outcome" where
  "buildStopFunc parseCSSColor stops base =
     bindO (lengthOf stops) (\<lambda>len.
     bindO (toNumber len) (\<lambda>izm.
     bindO (elemOf stops 0) (\<lambda>s0.
     bindO (elemOf s0 1) (\<lambda>sampleVal.
     bindO (getInterpolator parseCSSColor sampleVal) (\<lambda>f.
       Returns \<lparr>sf_stops = stops,
                sf_base = (case base of None \<Rightarrow> 1 | Some b \<Rightarrow> b),
                sf_interpolate = f\<rparr>)))))"

text \<open>
  The body of the closure.  \<^verbatim>\<open>stops.findIndex\<close> is a function only when \<^verbatim>\<open>stops\<close> is an array.
  The body is modelled for an array whose elements are arrays that start with a number,
  \<^verbatim>\<open>[input, output, ...]\<close>: such a stop is read as the pair of its input and its output
  (\<^verbatim>\<open>undefined\<close> when it has no second element).  The argument \<^verbatim>\<open>x\<close> is converted to a number
  by \<^verbatim>\<open>stop[0] > x\<close> and by \<^verbatim>\<open>x - x0\<close>; when it converts to \<^verbatim>\<open>NaN\<close> every comparison is false and
  \<^verbatim>\<open>findIndex\<close> returns \<open>- 1\<close>.
\<close>

type_synonym stop = "real \<times> val"

definition readStop :: "val \<Rightarrow> stop option" where
  "readStop v =
     (case v of
        Arr (Num a # rest) \<Rightarrow> Some (a, case rest of [] \<Rightarrow> Undefined | w # ws \<Rightarrow> w)
      | _ \<Rightarrow> None)"

definition readStops :: "val list \<Rightarrow> stop list option" where
  "readStops vs =
     (if list_all (\<lambda>v. readStop v \<noteq> None) vs then Some (map (\<lambda>v. the (readStop v)) vs) else None)"

definition outputAt :: "stop list \<Rightarrow> nat \<Rightarrow> val outcome" where
  "outputAt stops i = (if i < length stops then Returns (snd (stops ! i)) else Throws TypeError)"

definition applyStopFunc :: "colorParser \<Rightarrow> stopFunc \<Rightarrow> val \<Rightarrow> val outcome" where
  "applyStopFunc parseCSSColor sf x =
     (case sf_stops sf of
        Arr vs \<Rightarrow>
          (case readStops vs of
             None \<Rightarrow> NotModelled
           | Some stops \<Rightarrow>
               bindO (toNumber x) (\<lambda>n.
                 let izm = length stops - 1 in
                 case n of
                   None \<Rightarrow> outputAt stops izm
                 | Some r \<Rightarrow>
                     (case findIndex (\<lambda>stop. fst stop > r) stops of
                        None \<Rightarrow> outputAt stops izm
                      | Some 0 \<Rightarrow> outputAt stops 0
                      | Some (Suc j) \<Rightarrow>
                          if Suc j < length stops
                          then interpolate parseCSSColor (sf_interpolate sf)
                                 (snd (stops ! j)) (snd (stops ! Suc j))
                                 (interpFactor (sf_base sf) (fst (stops ! j)) r (fst (stops ! Suc j)))
                          else Throws TypeError)))
      | _ \<Rightarrow> Throws TypeError)"

text \<open>
  The style-property values \<^verbatim>\<open>buildStyleFunc\<close> distinguishes: \<^verbatim>\<open>undefined\<close>, \<^verbatim>\<open>null\<close>, a literal
  (a value that is not an object, or an array), and a specification object with the
  fields \<^verbatim>\<open>property\<close>, \<^verbatim>\<open>type\<close>, \<^verbatim>\<open>base\<close> and \<^verbatim>\<open>stops\<close>.  The first three may be missing;
  \<^verbatim>\<open>stops\<close> is any value, \<^verbatim>\<open>undefined\<close> when the field is missing.
\<close>

record spec =
  sp_property :: "string option"
  sp_type :: "string option"
  sp_base :: "real option"
  sp_stops :: val

datatype style = StyleUndefined | StyleNull | Literal val | Object spec

text \<open>
  The compiled functions.  \<^verbatim>\<open>getArg\<close> is \<^verbatim>\<open>(zoom, feature) => zoom\<close> or
  \<^verbatim>\<open>(zoom, feature) => feature.properties[style.property]\<close>; \<^verbatim>\<open>getStyleFunc\<close> returns \<^verbatim>\<open>getArg\<close>
  itself or \<^verbatim>\<open>(zoom, feature) => stopFunc(getArg(zoom, feature))\<close>; \<^verbatim>\<open>buildStyleFunc\<close> tags the
  function with its \<^verbatim>\<open>type\<close> (\<^verbatim>\<open>"constant"\<close>, \<^verbatim>\<open>"zoom"\<close> or \<^verbatim>\<open>"property"\<close>).
\<close>

datatype getArg = ArgZoom | ArgProperty string

datatype closure = Identity getArg | Stops getArg stopFunc

datatype styleFunc = Constant val | ZoomFunc closure | PropertyFunc closure

text \<open>
  Setting up a layer writes to the console and may throw.  A computation at setup time
  is the list of lines it logs, with its outcome.
\<close>

datatype logLine = LogStyle spec | LogText string

type_synonym 'r logged = "logLine list \<times> 'r outcome"

definition returnS :: "'r \<Rightarrow> 'r logged" where
  "returnS r = ([], Returns r)"

definition throwS :: "'r logged" where
  "throwS = ([], Throws TypeError)"

definition silent :: "'r outcome \<Rightarrow> 'r logged" where
  "silent m = ([], m)"

definition consoleLog :: "logLine list \<Rightarrow> 'r logged \<Rightarrow> 'r logged" where
  "consoleLog ls m = (ls @ fst m, snd m)"

definition bindS :: "'r logged \<Rightarrow> ('r \<Rightarrow> 'q logged) \<Rightarrow> 'q logged" where
  "bindS m f =
     (case snd m of
        Returns r \<Rightarrow> (fst m @ fst (f r), snd (f r))
      | Throws e \<Rightarrow> (fst m, Throws e)
      | NotModelled \<Rightarrow> (fst m, NotModelled))"

text \<open>
  The test \<^verbatim>\<open>!stops || stops.length < 2 || stops[0].length !== 2\<close> of \<^verbatim>\<open>getStyleFunc\<close>, evaluated
  from left to right.  \<^verbatim>\<open>!==\<close> converts nothing.
\<close>

definition stopsRejected :: "val \<Rightarrow> bool outcome" where
  "stopsRejected stops =
     (if \<not> truthy stops then Returns True
      else
        bindO (lengthOf stops) (\<lambda>len.
        bindO (lessThan2 len) (\<lambda>short.
          if short then Returns True
          else
            bindO (elemOf stops 0) (\<lambda>s0.
            bindO (lengthOf s0) (\<lambda>len0. Returns (len0 \<noteq> Num 2))))))"

definition getStyleFunc :: "colorParser \<Rightarrow> spec \<Rightarrow> getArg \<Rightarrow> closure option logged" where
  "getStyleFunc parseCSSColor style getArg =
     (if sp_type style = Some ''identity'' then returnS (Some (Identity getArg))
      else
        bindS (silent (stopsRejected (sp_stops style))) (\<lambda>rejected.
          if rejected
          then consoleLog [LogStyle style, LogText ''ERROR in buildStyleFunc: failed to understand style!'']
                 (returnS None)
          else
            bindS (silent (buildStopFunc parseCSSColor (sp_stops style) (sp_base style)))
              (\<lambda>stopFunc. returnS (Some (Stops getArg stopFunc)))))"

text \<open>\<^verbatim>\<open>styleFunc.type = ...\<close> throws when \<^verbatim>\<open>getStyleFunc\<close> has returned \<^verbatim>\<open>undefined\<close>.\<close>

definition setType :: "(closure \<Rightarrow> styleFunc) \<Rightarrow> closure option \<Rightarrow> styleFunc logged" where
  "setType tag f = (case f of None \<Rightarrow> throwS | Some c \<Rightarrow> returnS (tag c))"

definition buildStyleFunc :: "colorParser \<Rightarrow> style \<Rightarrow> val \<Rightarrow> styleFunc logged" where
  "buildStyleFunc parseCSSColor style defaultVal =
     (case style of
        StyleUndefined \<Rightarrow> returnS (Constant defaultVal)
      | Literal v \<Rightarrow> returnS (Constant v)
      | StyleNull \<Rightarrow> throwS
      | Object sp \<Rightarrow>
          (case sp_property sp of
             None \<Rightarrow> bindS (getStyleFunc parseCSSColor sp ArgZoom) (setType ZoomFunc)
           | Some p \<Rightarrow>
               if p = [] \<or> p = ''zoom''
               then bindS (getStyleFunc parseCSSColor sp ArgZoom) (setType ZoomFunc)
               else bindS (getStyleFunc parseCSSColor sp (ArgProperty p)) (setType PropertyFunc)))"

text \<open>
  \<^verbatim>\<open>collectGetters(properties = {}, keyDefaultPairs)\<close>: \<^verbatim>\<open>forEach\<close> over the pairs, which an
  exception leaves.
\<close>

type_synonym properties = "(string \<times> style) list"

type_synonym getters = "(string \<times> styleFunc) list"

definition lookupStyle :: "properties \<Rightarrow> string \<Rightarrow> style" where
  "lookupStyle props key = (case map_of props key of None \<Rightarrow> StyleUndefined | Some st \<Rightarrow> st)"

fun collectFrom :: "colorParser \<Rightarrow> properties \<Rightarrow> (string \<times> val) list \<Rightarrow> getters \<Rightarrow> getters logged" where
  "collectFrom parseCSSColor props [] getters = returnS getters"
| "collectFrom parseCSSColor props ((key, defaultVal) # pairs) getters =
     bindS (buildStyleFunc parseCSSColor (lookupStyle props key) defaultVal)
       (\<lambda>f. collectFrom parseCSSColor props pairs (AList.update key f getters))"

definition collectGetters :: "colorParser \<Rightarrow> properties option \<Rightarrow> (string \<times> val) list \<Rightarrow> getters logged" where
  "collectGetters parseCSSColor props keyDefaultPairs =
     collectFrom parseCSSColor (case props of None \<Rightarrow> [] | Some ps \<Rightarrow> ps) keyDefaultPairs []"

text \<open>
  Calling a compiled function.  A feature is its \<^verbatim>\<open>properties\<close> object; the painters of
  whole-tile layers call with the zoom only, so the feature may be \<^verbatim>\<open>undefined\<close>.
\<close>

type_synonym feature = "(string \<times> val) list"

definition applyGetArg :: "getArg \<Rightarrow> real \<Rightarrow> feature option \<Rightarrow> val outcome" where
  "applyGetArg g zoom feature =
     (case g of
        ArgZoom \<Rightarrow> Returns (Num zoom)
      | ArgProperty p \<Rightarrow>
          (case feature of
             None \<Rightarrow> Throws TypeError
           | Some props \<Rightarrow> Returns (property props p)))"

definition applyClosure :: "colorParser \<Rightarrow> closure \<Rightarrow> real \<Rightarrow> feature option \<Rightarrow> val outcome" where
  "applyClosure parseCSSColor c zoom feature =
     (case c of
        Identity g \<Rightarrow> applyGetArg g zoom feature
      | Stops g sf \<Rightarrow> bindO (applyGetArg g zoom feature) (applyStopFunc parseCSSColor sf))"

definition applyStyleFunc :: "colorParser \<Rightarrow> styleFunc \<Rightarrow> real \<Rightarrow> feature option \<Rightarrow> val outcome" where
  "applyStyleFunc parseCSSColor f zoom feature =
     (case f of
        Constant v \<Rightarrow> Returns v
      | ZoomFunc c \<Rightarrow> applyClosure parseCSSColor c zoom feature
      | PropertyFunc c \<Rightarrow> applyClosure parseCSSColor c zoom feature)"

text \<open>
  \<^verbatim>\<open>initPainter\<close> and the functions it calls, as far as they build style functions: which
  properties are compiled, in which order, with which defaults.  (Of a style layer only
  the fields read for that are kept; the data getters and the drawing closures are set
  up from other fields.)  \<^verbatim>\<open>addPainterFunctions\<close> is the loop of \<^verbatim>\<open>loadStyle\<close> over the layers
  of the style document.
\<close>

record layer =
  l_id :: string
  l_type :: string
  l_layout :: "properties option"
  l_paint :: "properties option"

definition initBackgroundFill :: "colorParser \<Rightarrow> layer \<Rightarrow> getters logged" where
  "initBackgroundFill parseCSSColor style =
     collectGetters parseCSSColor (l_paint style)
       [(''background-color'', Undefined), (''background-opacity'', Undefined)]"

definition initRasterFill :: "colorParser \<Rightarrow> layer \<Rightarrow> getters logged" where
  "initRasterFill parseCSSColor style =
     collectGetters parseCSSColor (l_paint style) [(''raster-opacity'', Undefined)]"

definition textSetup :: "colorParser \<Rightarrow> layer \<Rightarrow> (getters \<times> getters) logged" where
  "textSetup parseCSSColor style =
     bindS (collectGetters parseCSSColor (l_layout style)
              [(''text-field'', Undefined), (''text-size'', Num 16), (''text-font'', Undefined),
               (''text-line-height'', Num (12 / 10)), (''text-padding'', Num 2),
               (''text-offset'', Arr [Num 0, Num 0]), (''text-anchor'', Undefined),
               (''text-transform'', Str ''none'')])
       (\<lambda>getLayout.
          bindS (collectGetters parseCSSColor (l_paint style)
                   [(''text-color'', Undefined), (''text-halo-color'', Undefined),
                    (''text-halo-width'', Num 0)])
            (\<lambda>getPaint. returnS (getLayout, getPaint)))"

definition iconSetup :: "colorParser \<Rightarrow> layer \<Rightarrow> getters logged" where
  "iconSetup parseCSSColor style =
     collectGetters parseCSSColor (l_layout style)
       [(''icon-image'', Undefined), (''icon-padding'', Num 2)]"

definition initLabelerSetup :: "colorParser \<Rightarrow> layer \<Rightarrow> ((getters \<times> getters) \<times> getters) option logged" where
  "initLabelerSetup parseCSSColor style =
     (case l_layout style of
        None \<Rightarrow> throwS
      | Some layout \<Rightarrow>
          if lookupStyle layout ''symbol-placement'' = Literal (Str ''line'') then returnS None
          else
            bindS (textSetup parseCSSColor style)
              (\<lambda>text. bindS (iconSetup parseCSSColor style) (\<lambda>icon. returnS (Some (text, icon)))))"

fun getSetterList :: "colorParser \<Rightarrow> properties option \<Rightarrow> string list \<Rightarrow> (string \<times> styleFunc) list logged" where
  "getSetterList parseCSSColor props [] = returnS []"
| "getSetterList parseCSSColor props (key # keys) =
     (case props of
        None \<Rightarrow> throwS
      | Some ps \<Rightarrow>
          bindS (buildStyleFunc parseCSSColor (lookupStyle ps key) Undefined)
            (\<lambda>f. bindS (getSetterList parseCSSColor props keys) (\<lambda>rest. returnS ((key, f) # rest))))"

definition initBrushSetters :: "colorParser \<Rightarrow> layer \<Rightarrow> (string \<times> styleFunc) list logged" where
  "initBrushSetters parseCSSColor style =
     (if l_type style = ''circle'' then
        getSetterList parseCSSColor (l_paint style) [''circle-radius'', ''circle-color'', ''circle-opacity'']
      else if l_type style = ''line'' then
        bindS (if l_layout style \<noteq> None
               then getSetterList parseCSSColor (l_layout style)
                      [''line-cap'', ''line-join'', ''line-miter-limit'']
               else returnS [])
          (\<lambda>fromLayout.
             bindS (getSetterList parseCSSColor (l_paint style)
                      [''line-width'', ''line-opacity'', ''line-color''])
               (\<lambda>fromPaint. returnS (fromLayout @ fromPaint)))
      else if l_type style = ''fill'' then
        getSetterList parseCSSColor (l_paint style) [''fill-color'', ''fill-opacity'']
      else
        consoleLog [LogText (''ERROR in initBrush: layer.type = '' @ l_type style @ '' not supported!'')]
          throwS)"

datatype painter =
    BackgroundFill getters
  | RasterFill getters
  | Labeler "((getters \<times> getters) \<times> getters) option"
  | Brush "(string \<times> styleFunc) list"

definition initPainter :: "colorParser \<Rightarrow> layer \<Rightarrow> painter option logged" where
  "initPainter parseCSSColor style =
     (if l_type style = ''background'' then
        bindS (initBackgroundFill parseCSSColor style) (\<lambda>g. returnS (Some (BackgroundFill g)))
      else if l_type style = ''raster'' then
        bindS (initRasterFill parseCSSColor style) (\<lambda>g. returnS (Some (RasterFill g)))
      else if l_type style = ''symbol'' then
        bindS (initLabelerSetup parseCSSColor style) (\<lambda>g. returnS (Some (Labeler g)))
      else if l_type style \<in> {''circle'', ''line'', ''fill''} then
        bindS (initBrushSetters parseCSSColor style) (\<lambda>g. returnS (Some (Brush g)))
      else
        consoleLog [LogText (''ERROR in initRenderer: layer.type = '' @ l_type style @ '' not supported!'')]
          (returnS None))"

fun addPainterFunctions :: "colorParser \<Rightarrow> layer list \<Rightarrow> (layer \<times> painter option) list logged" where
  "addPainterFunctions parseCSSColor [] = returnS []"
| "addPainterFunctions parseCSSColor (layer # layers) =
     bindS (initPainter parseCSSColor layer)
       (\<lambda>painter. bindS (addPainterFunctions parseCSSColor layers)
          (\<lambda>rest. returnS ((layer, painter) # rest)))"

text \<open>
  Vocabulary for the properties.  A stop table given by its stops \<open>(input, output)\<close> is the
  array of the two-element arrays \<^verbatim>\<open>[input, output]\<close>; its inputs are strictly increasing; the
  base a style gives, 1 when it gives none; the closure over a table, a base and an
  interpolator.  \<open>specFactor\<close> is the interpolation factor as the specification words it,
  for a positive base.
\<close>

definition table :: "stop list \<Rightarrow> val" where
  "table stops = Arr (map (\<lambda>s. Arr [Num (fst s), snd s]) stops)"

definition increasing :: "stop list \<Rightarrow> bool" where
  "increasing stops = sorted_wrt (<) (map fst stops)"

definition baseOf :: "real option \<Rightarrow> real" where
  "baseOf base = (case base of None \<Rightarrow> 1 | Some b \<Rightarrow> b)"

definition closureOf :: "stop list \<Rightarrow> real option \<Rightarrow> interpolator \<Rightarrow> stopFunc" where
  "closureOf stops base f = \<lparr>sf_stops = table stops, sf_base = baseOf base, sf_interpolate = f\<rparr>"

definition specFactor :: "real \<Rightarrow> real \<Rightarrow> real \<Rightarrow> real \<Rightarrow> real" where
  "specFactor base x0 x x1 =
     (if x1 = x0 then 0
      else if base = 1 then (x - x0) / (x1 - x0)
      else (base powr (x - x0) - 1) / (base powr (x1 - x0) - 1))"

text \<open>A colour parser that knows no colour, and one that knows two.\<close>

definition noColors :: colorParser where
  "noColors s = Returns None"

definition twoColors :: colorParser where
  "twoColors s =
     (if s = ''red'' then Returns (Some (255, 0, 0, 1))
      else if s = ''blue'' then Returns (Some (0, 0, 255, 1))
      else Returns None)"
text \<open>
  A stop specification of one of the kinds the claim lists: no stops, an array of fewer
  than two stops, or an array whose first stop is not a pair (an array of another
  length, a number, a boolean or \<^verbatim>\<open>null\<close>); whether the first of at least two stops is \<^verbatim>\<open>null\<close>;
  the two lines \<^verbatim>\<open>getStyleFunc\<close> logs; the layer types \<^verbatim>\<open>initPainter\<close> knows; and a style of two
  background layers, the first with a single stop.
\<close>

definition malformed :: "val \<Rightarrow> bool" where
  "malformed stops =
     (case stops of
        Undefined \<Rightarrow> True
      | Arr xs \<Rightarrow>
          length xs < 2 \<or>
          (case hd xs of
             Arr ys \<Rightarrow> length ys \<noteq> 2
           | Num r \<Rightarrow> True
           | Bool b \<Rightarrow> True
           | Null \<Rightarrow> True
           | _ \<Rightarrow> False)
      | _ \<Rightarrow> False)"

definition nullFirst :: "val \<Rightarrow> bool" where
  "nullFirst stops = (case stops of Arr xs \<Rightarrow> 2 \<le> length xs \<and> hd xs = Null | _ \<Rightarrow> False)"

definition errorLines :: "spec \<Rightarrow> logLine list" where
  "errorLines sp = [LogStyle sp, LogText ''ERROR in buildStyleFunc: failed to understand style!'']"

definition supported :: "string \<Rightarrow> bool" where
  "supported ty = (ty \<in> {''background'', ''raster'', ''symbol'', ''circle'', ''line'', ''fill''})"

definition badColor :: spec where
  "badColor = \<lparr>sp_property = None, sp_type = None, sp_base = None,
                sp_stops = Arr [Arr [Num 0, Str ''red'']]\<rparr>"

definition nullColor :: spec where
  "nullColor = \<lparr>sp_property = None, sp_type = None, sp_base = None,
                 sp_stops = Arr [Null, Arr [Num 10, Str ''red'']]\<rparr>"

definition badLayer :: layer where
  "badLayer = \<lparr>l_id = ''land'', l_type = ''background'', l_layout = None,
                l_paint = Some [(''background-color'', Object badColor)]\<rparr>"

definition nullLayer :: layer where
  "nullLayer = \<lparr>l_id = ''land'', l_type = ''background'', l_layout = None,
                 l_paint = Some [(''background-color'', Object nullColor)]\<rparr>"

definition goodLayer :: layer where
  "goodLayer = \<lparr>l_id = ''sea'', l_type = ''background'', l_layout = None,
                 l_paint = Some [(''background-color'', Literal (Str ''blue''))]\<rparr>"

definition hillLayer :: layer where
  "hillLayer = \<lparr>l_id = ''hills'', l_type = ''hillshade'', l_layout = None, l_paint = None\<rparr>"

section \<open>Cooperative chain scheduler (initChainer)\<close>

text \<open>
  The closure state of \<^verbatim>\<open>initChainer\<close> is the array \<^verbatim>\<open>timeouts\<close> of entries
  \<^verbatim>\<open>{ id, func, rank }\<close>.  The functions it stores are closures; they are represented by the
  data they capture (type \<^typ>\<open>'f\<close>), and run by an interpreter that \<^verbatim>\<open>handleMessage\<close> takes
  as an argument.  A rank is a number or \<^verbatim>\<open>undefined\<close> (\<^const>\<open>None\<close>).

  Three fields are bookkeeping for the properties: \<open>zeroMessages\<close> counts the calls of
  \<^verbatim>\<open>window.postMessage\<close>, \<open>turn\<close> counts the message events handled so far (one event is
  one turn of the scheduler), and \<open>executed\<close> lists the caller's functions that have run,
  each with the turn it ran on.  The functions are written for every record that
  extends this one, so that the renderer can keep its own state next to the queue.
\<close>

record 'f timeout =
  task_id :: string
  func :: 'f
  rank :: "int option"

record ('f, 'a) chainer =
  timeouts :: "'f timeout list"
  zeroMessages :: nat
  turn :: nat
  executed :: "(nat \<times> 'a) list"

definition initChainer :: "('f, 'a) chainer" where
  "initChainer = \<lparr>timeouts = [], zeroMessages = 0, turn = 0, executed = []\<rparr>"

text \<open>\<^verbatim>\<open>setZeroTimeout(func, id)\<close>: push \<^verbatim>\<open>{ id, func, rank: 0 }\<close> and post the message.\<close>

definition setZeroTimeout ::
  "'f \<Rightarrow> string \<Rightarrow> ('f, 'a, 'z) chainer_scheme \<Rightarrow> ('f, 'a, 'z) chainer_scheme" where
  "setZeroTimeout f i s =
     s\<lparr>timeouts := timeouts s @ [\<lparr>task_id = i, func = f, rank = Some 0\<rparr>],
       zeroMessages := zeroMessages s + 1\<rparr>"

text \<open>
  \<^verbatim>\<open>handleMessage(evnt)\<close>.  An event is described by what the handler reads of it: whether
  its source is the window, and its data.
\<close>

record event =
  fromWindow :: bool
  evData :: string

definition messageName :: string where
  "messageName = ''zero-timeout-message''"

definition zeroEvent :: event where
  "zeroEvent = \<lparr>fromWindow = True, evData = messageName\<rparr>"

definition handleMessage ::
  "('f \<Rightarrow> ('f, 'a, 'z) chainer_scheme \<Rightarrow> ('f, 'a, 'z) chainer_scheme) \<Rightarrow> event \<Rightarrow>
   ('f, 'a, 'z) chainer_scheme \<Rightarrow> ('f, 'a, 'z) chainer_scheme" where
  "handleMessage run evnt s =
     (if \<not> fromWindow evnt \<or> evData evnt \<noteq> messageName then s
      else
        let s1 = s\<lparr>turn := turn s + 1\<rparr> in
        (case timeouts s1 of
           [] \<Rightarrow> s1
         | task # rest \<Rightarrow>
             let s2 = s1\<lparr>timeouts := rest\<rparr> in
             if rank task \<noteq> None then run (func task) s2 else s2))"

text \<open>
  \<^verbatim>\<open>sortTasks(ranking)\<close>.  The comparator is \<^verbatim>\<open>(a, b) => (a.rank > b.rank) ? 1 : -1\<close>; in
  JavaScript \<^verbatim>\<open>>\<close> is false as soon as one side is \<^verbatim>\<open>undefined\<close>.

  \<^verbatim>\<open>Array.prototype.sort\<close> belongs to the engine.  With a comparator that is not a consistent
  comparison function (this one never returns 0) the order it produces is
  implementation-defined, so the engine's algorithm is a parameter: a comparison sort,
  given as the function that computes the order of the positions \<open>0, \<dots>, n - 1\<close> from the
  outcomes of the comparisons between positions, which is all a comparison sort can see
  of the array.
\<close>

definition rankGreater :: "int option \<Rightarrow> int option \<Rightarrow> bool" where
  "rankGreater a b = (case (a, b) of (Some x, Some y) \<Rightarrow> x > y | _ \<Rightarrow> False)"

definition compareRank :: "'f timeout \<Rightarrow> 'f timeout \<Rightarrow> int" where
  "compareRank a b = (if rankGreater (rank a) (rank b) then 1 else - 1)"

type_synonym sorter = "(nat \<Rightarrow> nat \<Rightarrow> int) \<Rightarrow> nat \<Rightarrow> nat list"

definition arraySort :: "sorter \<Rightarrow> ('x \<Rightarrow> 'x \<Rightarrow> int) \<Rightarrow> 'x list \<Rightarrow> 'x list" where
  "arraySort srt cmp xs =
     (let n = length xs in
      map (\<lambda>i. xs ! i)
        (filter (\<lambda>i. i < n)
           (srt (\<lambda>i j. if i < n \<and> j < n then cmp (xs ! i) (xs ! j) else 0) n)))"

definition sortTasks ::
  "sorter \<Rightarrow> (string \<Rightarrow> int option) \<Rightarrow> ('f, 'a, 'z) chainer_scheme \<Rightarrow> ('f, 'a, 'z) chainer_scheme" where
  "sortTasks srt ranking s =
     s\<lparr>timeouts := arraySort srt compareRank (map (\<lambda>task. task\<lparr>rank := ranking (task_id task)\<rparr>) (timeouts s))\<rparr>"

text \<open>
  The closures of \<^verbatim>\<open>chainSyncList\<close>, \<^verbatim>\<open>chainAsyncList\<close> and \<^verbatim>\<open>callInOrder\<close>.  A function of the
  caller (a step or a final callback) is a label of type \<^typ>\<open>'a\<close>.  An element of the
  array \<^verbatim>\<open>cbFuncs\<close> is \<^verbatim>\<open>(cb) => { func(); setZeroTimeout(cb, taskId); }\<close> (\<open>SyncStep func taskId\<close>),
  an element of \<^verbatim>\<open>wrapFuncs\<close> is \<^verbatim>\<open>(cb) => { func( () => setZeroTimeout(cb, taskId) ); }\<close>
  (\<open>AsyncStep func taskId\<close>); the last element of the array that \<^verbatim>\<open>callInOrder\<close> works on is
  the final callback.  The queued functions are \<^verbatim>\<open>() => callInOrder(cbFuncs, finalCallback)\<close>
  and \<^verbatim>\<open>() => chain(funcs.shift())\<close>.  The latter is held with the elements the array
  \<^verbatim>\<open>funcs\<close> has when it runs: the array is private to its chain, and a chain has one such
  closure pending at a time.  The function \<^verbatim>\<open>() => setZeroTimeout(cb, taskId)\<close> that an
  asynchronous step receives is the pair of \<^verbatim>\<open>cb\<close> and \<^verbatim>\<open>taskId\<close>.

  What a label does when it is called is an argument \<open>run\<close> of the interpreter: it gets
  the label and, for an asynchronous step, the function to call when the step is done.
  (\<^verbatim>\<open>callInOrder\<close> passes a function to the final callback too; the final callbacks of this
  program do not read it.)
\<close>

datatype 'a cbFunc = SyncStep 'a string | AsyncStep 'a string | FinalCallback 'a

datatype 'a func = CallInOrder "'a cbFunc list" 'a | ChainShift "'a cbFunc list"

type_synonym 'a resume = "'a func \<times> string"

type_synonym ('a, 'z) runner =
  "'a \<Rightarrow> 'a resume option \<Rightarrow> ('a func, 'a, 'z) chainer_scheme \<Rightarrow> ('a func, 'a, 'z) chainer_scheme"

definition resume :: "'a resume \<Rightarrow> ('a func, 'a, 'z) chainer_scheme \<Rightarrow> ('a func, 'a, 'z) chainer_scheme" where
  "resume k s = setZeroTimeout (fst k) (snd k) s"

fun applyCb ::
  "('a, 'z) runner \<Rightarrow> 'a cbFunc \<Rightarrow> 'a func \<Rightarrow> ('a func, 'a, 'z) chainer_scheme \<Rightarrow> ('a func, 'a, 'z) chainer_scheme" where
  "applyCb run (SyncStep f taskId) cb s = setZeroTimeout cb taskId (run f None s)"
| "applyCb run (AsyncStep f taskId) cb s = run f (Some (cb, taskId)) s"
| "applyCb run (FinalCallback f) cb s = run f None s"

fun chain ::
  "('a, 'z) runner \<Rightarrow> 'a cbFunc list \<Rightarrow> ('a func, 'a, 'z) chainer_scheme \<Rightarrow> ('a func, 'a, 'z) chainer_scheme" where
  "chain run [] s = s"
| "chain run (f # funcs) s = applyCb run f (ChainShift funcs) s"

fun callInOrder ::
  "('a, 'z) runner \<Rightarrow> 'a cbFunc list \<Rightarrow> 'a \<Rightarrow> ('a func, 'a, 'z) chainer_scheme \<Rightarrow> ('a func, 'a, 'z) chainer_scheme" where
  "callInOrder run funcs finalCallback s = chain run (funcs @ [FinalCallback finalCallback]) s"

fun runFunc ::
  "('a, 'z) runner \<Rightarrow> 'a func \<Rightarrow> ('a func, 'a, 'z) chainer_scheme \<Rightarrow> ('a func, 'a, 'z) chainer_scheme" where
  "runFunc run (CallInOrder cbFuncs finalCallback) s = callInOrder run cbFuncs finalCallback s"
| "runFunc run (ChainShift funcs) s = chain run funcs s"

definition chainSyncList ::
  "'a list \<Rightarrow> 'a \<Rightarrow> string \<Rightarrow> ('a func, 'a, 'z) chainer_scheme \<Rightarrow> ('a func, 'a, 'z) chainer_scheme" where
  "chainSyncList funcs finalCallback taskId s =
     setZeroTimeout (CallInOrder (map (\<lambda>f. SyncStep f taskId) funcs) finalCallback) taskId s"

definition chainAsyncList ::
  "'a list \<Rightarrow> 'a \<Rightarrow> string \<Rightarrow> ('a func, 'a, 'z) chainer_scheme \<Rightarrow> ('a func, 'a, 'z) chainer_scheme" where
  "chainAsyncList funcs finalCallback taskId s =
     setZeroTimeout (CallInOrder (map (\<lambda>f. AsyncStep f taskId) funcs) finalCallback) taskId s"

text \<open>
  For the scheduler's own properties the caller's functions are opaque: calling one
  appends its label to \<open>executed\<close>, and an asynchronous step calls back at once.
\<close>

definition exec :: "('a, 'z) runner" where
  "exec a k s =
     (let s' = s\<lparr>executed := executed s @ [(turn s, a)]\<rparr>
      in case k of None \<Rightarrow> s' | Some r \<Rightarrow> resume r s')"

definition turns :: "nat \<Rightarrow> ('a func, 'a) chainer \<Rightarrow> ('a func, 'a) chainer" where
  "turns k s = ((handleMessage (runFunc exec) zeroEvent) ^^ k) s"

text \<open>One engine algorithm: insertion sort, which moves an element left past the elements
  the comparator calls greater.\<close>

fun insertSorted :: "(nat \<Rightarrow> nat \<Rightarrow> int) \<Rightarrow> nat \<Rightarrow> nat list \<Rightarrow> nat list" where
  "insertSorted cmp x [] = [x]"
| "insertSorted cmp x (y # ys) = (if cmp y x > 0 then y # insertSorted cmp x ys else x # y # ys)"

definition insertionSort :: sorter where
  "insertionSort cmp n = rev (foldl (\<lambda>acc i. insertSorted cmp i acc) [] [0..<n])"


text \<open>
  Vocabulary for the properties: the array a queued function will work through, and the
  array of a chain of synchronous steps.
\<close>

fun todo :: "'a func \<Rightarrow> 'a cbFunc list" where
  "todo (CallInOrder cbFuncs finalCallback) = cbFuncs @ [FinalCallback finalCallback]"
| "todo (ChainShift funcs) = funcs"

definition syncChain :: "'a list \<Rightarrow> 'a \<Rightarrow> string \<Rightarrow> 'a cbFunc list" where
  "syncChain steps final tid = map (\<lambda>f. SyncStep f tid) steps @ [FinalCallback final]"

text \<open>
  The order the comment in \<^verbatim>\<open>sortTasks\<close> announces (``smaller rank number (or undefined
  rank) first''), and what it means for \<^verbatim>\<open>sortTasks\<close> to establish it on a queue.
\<close>

definition rankLe :: "int option \<Rightarrow> int option \<Rightarrow> bool" where
  "rankLe a b = (case a of None \<Rightarrow> True | Some x \<Rightarrow> (case b of None \<Rightarrow> False | Some y \<Rightarrow> x \<le> y))"

definition rankOrdered :: "'f timeout list \<Rightarrow> bool" where
  "rankOrdered q = sorted_wrt (\<lambda>a b. rankLe (rank a) (rank b)) q"

definition ranked :: "(string \<Rightarrow> int option) \<Rightarrow> 'f timeout list \<Rightarrow> 'f timeout list" where
  "ranked ranking q = map (\<lambda>task. task\<lparr>rank := ranking (task_id task)\<rparr>) q"

definition sortedByRank :: "sorter \<Rightarrow> (string \<Rightarrow> int option) \<Rightarrow> 'f timeout list \<Rightarrow> bool" where
  "sortedByRank srt ranking q =
     (let q' = timeouts (sortTasks srt ranking ((initChainer :: ('f, unit) chainer)\<lparr>timeouts := q\<rparr>))
      in mset q' = mset (ranked ranking q) \<and> rankOrdered q')"

text \<open>
  Two queues of two entries, and a ranking that knows one of the two ids.  On both the
  comparator answers \<open>- 1\<close> to every question (\<open>blind\<close>).
\<close>

definition rankOnlyA :: "string \<Rightarrow> int option" where
  "rankOnlyA i = (if i = ''A'' then Some 1 else None)"

definition queueAB :: "'f \<Rightarrow> 'f \<Rightarrow> 'f timeout list" where
  "queueAB f g = [\<lparr>task_id = ''A'', func = f, rank = Some 0\<rparr>, \<lparr>task_id = ''B'', func = g, rank = Some 0\<rparr>]"

definition queueBA :: "'f \<Rightarrow> 'f \<Rightarrow> 'f timeout list" where
  "queueBA f g = [\<lparr>task_id = ''B'', func = g, rank = Some 0\<rparr>, \<lparr>task_id = ''A'', func = f, rank = Some 0\<rparr>]"

definition blind :: "nat \<Rightarrow> nat \<Rightarrow> int" where
  "blind i j = (if i < 2 \<and> j < 2 then - 1 else 0)"

text \<open>
  Another engine algorithm: the sort of V8 (the engine of Chrome and Node.js), for an
  array of fewer than 64 elements.  \<^verbatim>\<open>CountAndMakeRun\<close> takes the longest run at the start of
  the array: when the comparator answers less than 0 for the second element against the
  first, the run is taken as strictly descending, goes on as long as the comparator
  answers less than 0 for an element against the one before it, and is reversed; else it
  is ascending and goes on as long as the answer is not less than 0.  \<^verbatim>\<open>BinaryInsertionSort\<close>
  then inserts each of the remaining elements into the sorted front of the array, at the
  place a binary search finds.  (An array of 64 elements or more is cut into several runs,
  which are merged; this function does not do that.)
\<close>

fun runLength :: "(nat \<Rightarrow> nat \<Rightarrow> int) \<Rightarrow> bool \<Rightarrow> nat \<Rightarrow> nat list \<Rightarrow> nat" where
  "runLength cmp descending previous [] = 0"
| "runLength cmp descending previous (current # rest) =
     (let order = cmp current previous in
      if (if descending then order \<ge> 0 else order < 0) then 0
      else 1 + runLength cmp descending current rest)"

definition countAndMakeRun :: "(nat \<Rightarrow> nat \<Rightarrow> int) \<Rightarrow> nat list \<Rightarrow> nat list \<times> nat" where
  "countAndMakeRun cmp work =
     (case work of
        elementHigh # elementLow # rest \<Rightarrow>
          (let descending = cmp elementLow elementHigh < 0;
               n = 2 + runLength cmp descending elementLow rest
           in (if descending then rev (take n work) @ drop n work else work, n))
      | _ \<Rightarrow> (work, length work))"

function binarySearch :: "(nat \<Rightarrow> nat \<Rightarrow> int) \<Rightarrow> nat list \<Rightarrow> nat \<Rightarrow> nat \<Rightarrow> nat \<Rightarrow> nat" where
  "binarySearch cmp work pivot left right =
     (if left < right then
        let mid = left + (right - left) div 2 in
        if cmp pivot (work ! mid) < 0 then binarySearch cmp work pivot left mid
        else binarySearch cmp work pivot (mid + 1) right
      else left)"
  by pat_completeness auto

termination
  by (relation "measure (\<lambda>(cmp, work, pivot, left, right). right - left)") auto

declare binarySearch.simps [simp del]

definition insertPivot :: "(nat \<Rightarrow> nat \<Rightarrow> int) \<Rightarrow> nat list \<Rightarrow> nat \<Rightarrow> nat list" where
  "insertPivot cmp work start =
     (let pivot = work ! start;
          left = binarySearch cmp work pivot 0 start
      in take left work @ pivot # drop left (take start work) @ drop (Suc start) work)"

definition binaryInsertionSort :: "(nat \<Rightarrow> nat \<Rightarrow> int) \<Rightarrow> nat list \<Rightarrow> nat \<Rightarrow> nat list" where
  "binaryInsertionSort cmp work start = foldl (insertPivot cmp) work [start ..< length work]"

definition v8Sort :: sorter where
  "v8Sort cmp n =
     (if n < 2 then [0 ..< n]
      else
        (case countAndMakeRun cmp [0 ..< n] of
           (work, currentRunLength) \<Rightarrow> binaryInsertionSort cmp work currentRunLength))"

text \<open>
  Vocabulary: the entries of a queue all get the same rank; and two chains queued one
  after the other, \<^verbatim>\<open>chainSyncList([1], 2, "A")\<close> before \<^verbatim>\<open>chainSyncList([3], 4, "B")\<close>.
\<close>

definition equalRank :: "(string \<Rightarrow> int option) \<Rightarrow> 'f timeout list \<Rightarrow> int \<Rightarrow> bool" where
  "equalRank ranking q r = list_all (\<lambda>task. ranking (task_id task) = Some r) q"

definition twoChains :: "(nat func, nat) chainer" where
  "twoChains = chainSyncList [3] 4 ''B'' (chainSyncList [1] 2 ''A'' initChainer)"

section \<open>Label placement (initLabeler)\<close>

text \<open>
  The function \<^verbatim>\<open>initLabeler\<close> returns draws the labels of one symbol layer.  Its closure
  holds the getters that the setup of the layer has collected, or nothing when the layer
  has \<^verbatim>\<open>symbol-placement: line\<close>, for which \<^verbatim>\<open>initLabeler\<close> returns \<^verbatim>\<open>() => undefined\<close>.

  A bounding box is \<^verbatim>\<open>[[xmin, ymin], [xmax, ymax]]\<close>.  The two measuring closures
  (\<^verbatim>\<open>textLabeler.measure\<close>, \<^verbatim>\<open>iconLabeler.measure\<close>) are arguments: each gives the box of a
  feature, or \<^verbatim>\<open>undefined\<close> when the feature has no text, respectively no icon.
  \<^verbatim>\<open>iconLabeler.draw()\<close> and \<^verbatim>\<open>textLabeler.draw()\<close> paint what was measured last, and return
  at once when there was nothing to measure; a call is recorded with the feature and its
  box.  The array \<^verbatim>\<open>boxes\<close> and the calls made so far are the state of a draw pass.
\<close>

type_synonym box = "(real \<times> real) \<times> (real \<times> real)"

definition intersects :: "box \<Rightarrow> box \<Rightarrow> bool" where
  "intersects box1 box2 =
     (if fst (fst box1) > fst (snd box2) then False
      else if fst (fst box2) > fst (snd box1) then False
      else if snd (fst box1) > snd (snd box2) then False
      else if snd (fst box2) > snd (snd box1) then False
      else True)"

datatype 'f drawCall = IconDraw 'f "box option" | TextDraw 'f "box option"

record 'f pass =
  boxes :: "box list"
  drawn :: "'f drawCall list"

definition collides :: "box list \<Rightarrow> box option \<Rightarrow> bool" where
  "collides bs newBox =
     (case newBox of None \<Rightarrow> False | Some b \<Rightarrow> list_ex (\<lambda>box. intersects box b) bs)"

definition pushBox :: "box option \<Rightarrow> box list \<Rightarrow> box list" where
  "pushBox b bs = (case b of None \<Rightarrow> bs | Some x \<Rightarrow> bs @ [x])"

definition drawLabel ::
  "('f \<Rightarrow> box option) \<Rightarrow> ('f \<Rightarrow> box option) \<Rightarrow> 'f \<Rightarrow> 'f pass \<Rightarrow> 'f pass" where
  "drawLabel textMeasure iconMeasure feature p =
     (let textBox = textMeasure feature in
      if collides (boxes p) textBox then p
      else
        let iconBox = iconMeasure feature in
        if collides (boxes p) iconBox then p
        else
          p\<lparr>boxes := pushBox iconBox (pushBox textBox (boxes p)),
            drawn := drawn p @ [IconDraw feature iconBox, TextDraw feature textBox]\<rparr>)"

definition labeler ::
  "((getters \<times> getters) \<times> getters) option \<Rightarrow> ('f \<Rightarrow> box option) \<Rightarrow> ('f \<Rightarrow> box option) \<Rightarrow>
   'f list \<Rightarrow> 'f pass \<Rightarrow> 'f pass" where
  "labeler g textMeasure iconMeasure features p =
     (case g of
        None \<Rightarrow> p
      | Some getters \<Rightarrow> foldl (\<lambda>p feature. drawLabel textMeasure iconMeasure feature p) p features)"

text \<open>
  Vocabulary for the properties: a feature none of whose boxes intersects a box of the
  list; what accepting a feature does to the pass; and an example.
\<close>

definition accepts :: "('f \<Rightarrow> box option) \<Rightarrow> ('f \<Rightarrow> box option) \<Rightarrow> box list \<Rightarrow> 'f \<Rightarrow> bool" where
  "accepts textMeasure iconMeasure bs feature =
     (\<not> (\<exists>b \<in> set bs. \<exists>t. textMeasure feature = Some t \<and> intersects b t) \<and>
      \<not> (\<exists>b \<in> set bs. \<exists>i. iconMeasure feature = Some i \<and> intersects b i))"

definition accept :: "('f \<Rightarrow> box option) \<Rightarrow> ('f \<Rightarrow> box option) \<Rightarrow> 'f \<Rightarrow> 'f pass \<Rightarrow> 'f pass" where
  "accept textMeasure iconMeasure feature p =
     p\<lparr>boxes := boxes p @ (case textMeasure feature of None \<Rightarrow> [] | Some t \<Rightarrow> [t])
                        @ (case iconMeasure feature of None \<Rightarrow> [] | Some i \<Rightarrow> [i]),
       drawn := drawn p @ [IconDraw feature (iconMeasure feature), TextDraw feature (textMeasure feature)]\<rparr>"

definition overlapText :: "nat \<Rightarrow> box option" where
  "overlapText f = (if f = 1 then Some ((0, 0), (2, 1)) else Some ((1, 0), (3, 1)))"

definition noIcon :: "nat \<Rightarrow> box option" where
  "noIcon f = None"

definition emptyPass :: "'f pass" where
  "emptyPass = \<lparr>boxes = [], drawn = []\<rparr>"

definition lineLayer :: layer where
  "lineLayer = \<lparr>l_id = ''road-label'', l_type = ''symbol'',
                 l_layout = Some [(''symbol-placement'', Literal (Str ''line''))], l_paint = None\<rparr>"

section \<open>Tiles and the tile factory (initTileFactory)\<close>

text \<open>
  A tile object holds the data of its sources, its drawing surface (\<^verbatim>\<open>ctx\<close>, here the list
  of the operations drawn on it), the laminae of the layer groups and the four flags.
  \<^verbatim>\<open>orderTile\<close> creates one and starts one load per tile source; its closure keeps
  \<^verbatim>\<open>numToDo\<close> and \<^verbatim>\<open>loadTasks\<close>.  The loader is the worker wrapper of the first section,
  with the source key standing for the callback \<^verbatim>\<open>(err, data) => checkData(err, srcKey, data)\<close>.
  The image loads that were started, the console and the calls of the tile's callback
  are recorded.  \<^verbatim>\<open>tileURL\<close> (the endpoint with the tile's coordinates filled in) is an
  argument.  The \<^verbatim>\<open>sources\<close> object of the style is the list of its entries in the order
  in which \<^verbatim>\<open>Object.keys\<close> lists them.
\<close>

datatype 'l canvasOp = ClearRect | Painted 'l | DrawImage string

record 'l lamina =
  lam_rendered :: bool
  lam_ops :: "'l canvasOp list"

definition initLamina :: "'l lamina" where
  "initLamina = \<lparr>lam_rendered = False, lam_ops = []\<rparr>"

record ('d, 'l) tile =
  tile_id :: string
  tile_sources :: "(string \<times> 'd option) list"
  laminae :: "string \<Rightarrow> 'l lamina"
  tile_ops :: "'l canvasOp list"
  loaded :: bool
  canceled :: bool
  rendering :: bool
  rendered :: bool


text \<open>A source of the style document, as far as \<^verbatim>\<open>initTileFactory\<close> reads it.\<close>

record source =
  src_type :: string
  src_tiles :: "string list option"

definition tileSourceKeys :: "(string \<times> source) list \<Rightarrow> string list" where
  "tileSourceKeys sources =
     map fst (filter (\<lambda>kv. case src_tiles (snd kv) of None \<Rightarrow> False | Some ts \<Rightarrow> length ts > 0) sources)"

record ('d, 'l, 'f) tileOrder =
  tile :: "('d, 'l) tile"
  numToDo :: int
  loadTasks :: "(string \<times> nat) list"
  loader :: "(string, 'f) worker"
  imageLoads :: "(string \<times> string) list"
  console :: "cberr list"
  tileCalls :: "cberr option list"

definition loadTile ::
  "(string \<Rightarrow> string) \<Rightarrow> (string \<times> source) list \<Rightarrow> string \<Rightarrow> ('d, 'l, 'f) tileOrder \<Rightarrow> ('d, 'l, 'f) tileOrder" where
  "loadTile tileURL sources srcKey t =
     (case map_of sources srcKey of
        None \<Rightarrow> t
      | Some src \<Rightarrow>
          (case src_tiles src of
             None \<Rightarrow> t
           | Some [] \<Rightarrow> t
           | Some (endpoint # others) \<Rightarrow>
               let tileHref = tileURL endpoint in
               if src_type src = ''vector'' then
                 (let started = startTask tileHref srcKey (loader t)
                  in t\<lparr>loader := snd started,
                       loadTasks := AList.update srcKey (fst started) (loadTasks t)\<rparr>)
               else if src_type src = ''raster'' then
                 t\<lparr>imageLoads := imageLoads t @ [(tileHref, srcKey)]\<rparr>
               else t))"

definition orderTile ::
  "(string \<Rightarrow> string) \<Rightarrow> (string \<times> source) list \<Rightarrow> (string, 'f) worker \<Rightarrow> string \<Rightarrow> ('d, 'l, 'f) tileOrder" where
  "orderTile tileURL sources ldr ident =
     foldl (\<lambda>t srcKey. loadTile tileURL sources srcKey t)
       \<lparr>tile = \<lparr>tile_id = ident, tile_sources = [], laminae = (\<lambda>name. initLamina), tile_ops = [],
                loaded = False, canceled = False, rendering = False, rendered = False\<rparr>,
        numToDo = int (length (tileSourceKeys sources)), loadTasks = [], loader = ldr,
        imageLoads = [], console = [], tileCalls = []\<rparr>
       (tileSourceKeys sources)"

definition cancel :: "('d, 'l, 'f) tileOrder \<Rightarrow> ('d, 'l, 'f) tileOrder" where
  "cancel t =
     t\<lparr>loader := foldl (\<lambda>w task. cancelTask task w) (loader t) (map snd (loadTasks t)),
       tile := (tile t)\<lparr>canceled := True\<rparr>\<rparr>"

definition checkData :: "cberr option \<Rightarrow> string \<Rightarrow> 'd option \<Rightarrow> ('d, 'l, 'f) tileOrder \<Rightarrow> ('d, 'l, 'f) tileOrder" where
  "checkData err key data t =
     (let t1 = (case err of None \<Rightarrow> t | Some e \<Rightarrow> t\<lparr>console := console t @ [e]\<rparr>);
          t2 = t1\<lparr>tile := (tile t1)\<lparr>tile_sources := AList.update key data (tile_sources (tile t1))\<rparr>,
                  loadTasks := AList.delete key (loadTasks t1),
                  numToDo := numToDo t1 - 1\<rparr>
      in if numToDo t2 > 0 then t2
         else t2\<lparr>tile := (tile t2)\<lparr>loaded := True\<rparr>, tileCalls := tileCalls t2 @ [None]\<rparr>)"

text \<open>
  Vocabulary for the properties: the \<^verbatim>\<open>loaded\<close> flag of the ordered tile; a sequence of
  completions \<^verbatim>\<open>checkData(err, key, data)\<close>, one per report; and two examples.
\<close>

definition tileLoaded :: "('d, 'l, 'f) tileOrder \<Rightarrow> bool" where
  "tileLoaded t = loaded (tile t)"

type_synonym 'd report = "cberr option \<times> string \<times> 'd option"

definition reported :: "'d report list \<Rightarrow> ('d, 'l, 'f) tileOrder \<Rightarrow> ('d, 'l, 'f) tileOrder" where
  "reported rs t = foldl (\<lambda>t r. checkData (fst r) (fst (snd r)) (snd (snd r)) t) t rs"

definition vectorSource :: source where
  "vectorSource = \<lparr>src_type = ''vector'', src_tiles = Some [''https://tiles/{z}/{x}/{y}.pbf'']\<rparr>"

definition rasterSource :: source where
  "rasterSource = \<lparr>src_type = ''raster'', src_tiles = Some [''https://img/{z}/{x}/{y}.png'']\<rparr>"

definition twoSources :: "(string \<times> source) list" where
  "twoSources = [(''streets'', vectorSource), (''satellite'', rasterSource)]"

definition twoReports :: "nat report list" where
  "twoReports = [(Some (Message ''ERROR in loadImage''), ''satellite'', None), (None, ''streets'', Some 7)]"

definition twoSourceTile :: "(nat, nat, nat) tileOrder" where
  "twoSourceTile = orderTile id twoSources initWorker ''3/1/2''"

definition noSourceTile :: "(nat, nat, nat) tileOrder" where
  "noSourceTile = orderTile id [] initWorker ''3/1/2''"

section \<open>Renderer (initRenderer, drawAll)\<close>

text \<open>
  \<^verbatim>\<open>init\<close> keeps \<^verbatim>\<open>styleGroups\<close> and \<^verbatim>\<open>activeDrawCalls\<close> and owns the chainer; \<^verbatim>\<open>initRenderer\<close>
  provides \<^verbatim>\<open>drawGroup\<close> and \<^verbatim>\<open>composite\<close>.  The state below is that closure state together
  with the tile being drawn, the arrays \<^verbatim>\<open>boundingBoxes\<close> that \<^verbatim>\<open>drawGroup\<close> allocates (by
  number), and the calls of the caller's callback.  It extends the chainer's record, so
  the functions of the scheduler apply to it.

  With one style group \<^verbatim>\<open>getLamina\<close> returns the tile itself, with several the lamina of
  the group.  The functions the renderer queues or passes on are labels: the function
  \<^verbatim>\<open>makeDrawCall(group)\<close> returns, \<^verbatim>\<open>putTogether\<close>, a layer's painter call, and \<^verbatim>\<open>returnResult\<close>
  with the callback of its \<^verbatim>\<open>drawGroup\<close>; such a callback is \<^verbatim>\<open>checkCb\<close> (with the function
  \<^verbatim>\<open>cb\<close> it calls last) or a function of the caller.  A layer's painter is an argument: it
  gives the operations it draws and the boxes it leaves.
\<close>

record 'l group =
  g_name :: string
  g_visible :: bool
  g_layers :: "'l list"

datatype cbArg = Finished | FinishedTimed | Progress string

datatype ('l, 'c) rcall =
    MakeDrawCall "'l group" 'c bool
  | PutTogether 'c bool
  | PainterCall 'l string nat
  | ReturnResult string "('l, 'c) kont"
and ('l, 'c) kont =
    CheckCb "('l, 'c) rcall func" string string 'c bool
  | Callback 'c

record ('d, 'l, 'c) renderer = "(('l, 'c) rcall func, ('l, 'c) rcall) chainer" +
  styleGroups :: "'l group list"
  activeDrawCalls :: int
  the_tile :: "('d, 'l) tile"
  boundingBoxes :: "nat \<Rightarrow> box list"
  nextBoxes :: nat
  callbacks :: "('c \<times> cbArg) list"

type_synonym ('d, 'l) painters = "'l \<Rightarrow> (string \<times> 'd option) list \<Rightarrow> box list \<Rightarrow> 'l canvasOp list \<times> box list"

definition severalGroups :: "('d, 'l, 'c) renderer \<Rightarrow> bool" where
  "severalGroups s = (length (styleGroups s) > 1)"

definition laminaRendered :: "('d, 'l, 'c) renderer \<Rightarrow> string \<Rightarrow> bool" where
  "laminaRendered s name =
     (if severalGroups s then lam_rendered (laminae (the_tile s) name) else rendered (the_tile s))"

definition setLaminaRendered :: "string \<Rightarrow> ('d, 'l, 'c) renderer \<Rightarrow> ('d, 'l, 'c) renderer" where
  "setLaminaRendered name s =
     (if severalGroups s
      then s\<lparr>the_tile := (the_tile s)\<lparr>laminae :=
               (laminae (the_tile s))(name := (laminae (the_tile s) name)\<lparr>lam_rendered := True\<rparr>)\<rparr>\<rparr>
      else s\<lparr>the_tile := (the_tile s)\<lparr>rendered := True\<rparr>\<rparr>)"

definition drawOnLamina :: "string \<Rightarrow> 'l canvasOp list \<Rightarrow> ('d, 'l, 'c) renderer \<Rightarrow> ('d, 'l, 'c) renderer" where
  "drawOnLamina name ops s =
     (if severalGroups s
      then s\<lparr>the_tile := (the_tile s)\<lparr>laminae :=
               (laminae (the_tile s))(name := (laminae (the_tile s) name)
                  \<lparr>lam_ops := lam_ops (laminae (the_tile s) name) @ ops\<rparr>)\<rparr>\<rparr>
      else s\<lparr>the_tile := (the_tile s)\<lparr>tile_ops := tile_ops (the_tile s) @ ops\<rparr>\<rparr>)"

definition invokeCallback :: "'c \<Rightarrow> cbArg \<Rightarrow> ('d, 'l, 'c) renderer \<Rightarrow> ('d, 'l, 'c) renderer" where
  "invokeCallback c arg s = s\<lparr>callbacks := callbacks s @ [(c, arg)]\<rparr>"

definition invokeKont :: "('l, 'c) kont \<Rightarrow> ('d, 'l, 'c) renderer \<Rightarrow> ('d, 'l, 'c) renderer" where
  "invokeKont k s =
     (case k of
        Callback c \<Rightarrow> invokeCallback c Finished s
      | CheckCb cb taskId groupName c reportTime \<Rightarrow>
          setZeroTimeout cb taskId (if reportTime then invokeCallback c (Progress groupName) s else s))"

definition drawGroup :: "'l group \<Rightarrow> ('l, 'c) kont \<Rightarrow> ('d, 'l, 'c) renderer \<Rightarrow> ('d, 'l, 'c) renderer" where
  "drawGroup layerGroup k s =
     (if laminaRendered s (g_name layerGroup) then invokeKont k s
      else
        let s1 = drawOnLamina (g_name layerGroup) [ClearRect] s;
            bb = nextBoxes s1;
            s2 = s1\<lparr>boundingBoxes := (boundingBoxes s1)(bb := []), nextBoxes := bb + 1\<rparr>
        in chainSyncList (map (\<lambda>layer. PainterCall layer (g_name layerGroup) bb) (g_layers layerGroup))
             (ReturnResult (g_name layerGroup) k) (tile_id (the_tile s2)) s2)"

definition composite :: "('d, 'l, 'c) renderer \<Rightarrow> ('d, 'l, 'c) renderer" where
  "composite s =
     (if severalGroups s
      then s\<lparr>the_tile := (the_tile s)\<lparr>tile_ops := tile_ops (the_tile s) @ ClearRect #
               map (\<lambda>g. DrawImage (g_name g)) (filter g_visible (styleGroups s))\<rparr>\<rparr>
      else s)"

definition putTogether :: "'c \<Rightarrow> bool \<Rightarrow> ('d, 'l, 'c) renderer \<Rightarrow> ('d, 'l, 'c) renderer" where
  "putTogether c reportTime s =
     (let s1 = composite s;
          s2 = s1\<lparr>the_tile := (the_tile s1)\<lparr>rendered := True, rendering := False\<rparr>,
                  activeDrawCalls := activeDrawCalls s1 - 1\<rparr>
      in invokeCallback c (if reportTime then FinishedTimed else Finished) s2)"

definition drawAll :: "'c \<Rightarrow> bool \<Rightarrow> ('d, 'l, 'c) renderer \<Rightarrow> ('d, 'l, 'c) renderer" where
  "drawAll c reportTime s =
     (if canceled (the_tile s) then s
      else if \<not> loaded (the_tile s) then s
      else if rendering (the_tile s) \<or> rendered (the_tile s) then s
      else
        let s1 = s\<lparr>the_tile := (the_tile s)\<lparr>rendering := True\<rparr>,
                   activeDrawCalls := activeDrawCalls s + 1\<rparr>
        in chainAsyncList (map (\<lambda>g. MakeDrawCall g c reportTime) (filter g_visible (styleGroups s1)))
             (PutTogether c reportTime) (tile_id (the_tile s1)) s1)"

text \<open>What the renderer's functions do when the scheduler calls them.\<close>

definition runCall ::
  "('d, 'l) painters \<Rightarrow> ('l, 'c) rcall \<Rightarrow> ('l, 'c) rcall resume option \<Rightarrow>
   ('d, 'l, 'c) renderer \<Rightarrow> ('d, 'l, 'c) renderer" where
  "runCall painter call k s =
     (case call of
        MakeDrawCall layerGroup c reportTime \<Rightarrow>
          (case k of
             None \<Rightarrow> s
           | Some r \<Rightarrow> drawGroup layerGroup (CheckCb (fst r) (snd r) (g_name layerGroup) c reportTime) s)
      | PutTogether c reportTime \<Rightarrow> putTogether c reportTime s
      | PainterCall layer name bb \<Rightarrow>
          (let res = painter layer (tile_sources (the_tile s)) (boundingBoxes s bb)
           in (drawOnLamina name (fst res) s)\<lparr>boundingBoxes := (boundingBoxes s)(bb := snd res)\<rparr>)
      | ReturnResult name k' \<Rightarrow> invokeKont k' (setLaminaRendered name s))"

text \<open>\<open>n\<close> turns of the scheduler, with the renderer's functions run as above.\<close>

definition drawTurns :: "('d, 'l) painters \<Rightarrow> nat \<Rightarrow> ('d, 'l, 'c) renderer \<Rightarrow> ('d, 'l, 'c) renderer" where
  "drawTurns painter n s = ((handleMessage (runFunc (runCall painter)) zeroEvent) ^^ n) s"

text \<open>An example: a loaded tile and a renderer with one group of two layers.\<close>

definition readyTile :: "(nat, nat) tile" where
  "readyTile = \<lparr>tile_id = ''3/1/2'', tile_sources = [], laminae = (\<lambda>name. initLamina), tile_ops = [],
     loaded = True, canceled = False, rendering = False, rendered = False\<rparr>"

definition oneGroup :: "(nat, nat, nat) renderer" where
  "oneGroup = \<lparr>timeouts = [], zeroMessages = 0, turn = 0, executed = [],
     styleGroups = [\<lparr>g_name = ''none'', g_visible = True, g_layers = [10, 11]\<rparr>],
     activeDrawCalls = 0, the_tile = readyTile, boundingBoxes = (\<lambda>i. []), nextBoxes = 0, callbacks = []\<rparr>"

subsection \<open>A draw written without the scheduler\<close>

text \<open>
  What a complete draw does to the renderer's state, written as one function: the effect
  of the scheduler's turns is stated against it.  \<open>paintLayers\<close> calls the painters of a
  group one after the other, \<open>renderGroup\<close> is \<^verbatim>\<open>drawGroup\<close> with its painters run at once
  and \<^verbatim>\<open>checkCb\<close> for callback, \<open>renderNow\<close> is \<^verbatim>\<open>drawAll\<close> with every group drawn at once.
\<close>

definition paintLayers ::
  "('d, 'l) painters \<Rightarrow> string \<Rightarrow> nat \<Rightarrow> 'l list \<Rightarrow> ('d, 'l, 'c) renderer \<Rightarrow> ('d, 'l, 'c) renderer" where
  "paintLayers painter name bb layers s =
     foldl (\<lambda>s layer. runCall painter (PainterCall layer name bb) None s) s layers"

definition progress :: "'c \<Rightarrow> bool \<Rightarrow> string \<Rightarrow> ('d, 'l, 'c) renderer \<Rightarrow> ('d, 'l, 'c) renderer" where
  "progress c reportTime name s = (if reportTime then invokeCallback c (Progress name) s else s)"

definition freshBoxes :: "('d, 'l, 'c) renderer \<Rightarrow> ('d, 'l, 'c) renderer" where
  "freshBoxes s = s\<lparr>boundingBoxes := (boundingBoxes s)(nextBoxes s := []), nextBoxes := nextBoxes s + 1\<rparr>"

definition renderGroup ::
  "('d, 'l) painters \<Rightarrow> 'c \<Rightarrow> bool \<Rightarrow> ('d, 'l, 'c) renderer \<Rightarrow> 'l group \<Rightarrow> ('d, 'l, 'c) renderer" where
  "renderGroup painter c reportTime s g =
     (let s1 = drawOnLamina (g_name g) [ClearRect] s;
          bb = nextBoxes s1;
          s2 = s1\<lparr>boundingBoxes := (boundingBoxes s1)(bb := []), nextBoxes := bb + 1\<rparr>
      in progress c reportTime (g_name g)
           (setLaminaRendered (g_name g) (paintLayers painter (g_name g) bb (g_layers g) s2)))"

definition startDraw :: "('d, 'l, 'c) renderer \<Rightarrow> ('d, 'l, 'c) renderer" where
  "startDraw s = s\<lparr>the_tile := (the_tile s)\<lparr>rendering := True\<rparr>, activeDrawCalls := activeDrawCalls s + 1\<rparr>"

definition renderNow :: "('d, 'l) painters \<Rightarrow> 'c \<Rightarrow> bool \<Rightarrow> ('d, 'l, 'c) renderer \<Rightarrow> ('d, 'l, 'c) renderer" where
  "renderNow painter c reportTime s =
     putTogether c reportTime
       (foldl (renderGroup painter c reportTime) (startDraw s) (filter g_visible (styleGroups s)))"

text \<open>The number of turns a draw takes: for each visible group one turn for
  \<^verbatim>\<open>drawGroup\<close>, one for each layer and one for \<^verbatim>\<open>returnResult\<close>; then one for \<^verbatim>\<open>putTogether\<close>.\<close>

definition groupTurns :: "'l group list \<Rightarrow> nat" where
  "groupTurns gs = sum_list (map (\<lambda>g. length (g_layers g) + 2) gs)"

definition drawTurnCount :: "'l group list \<Rightarrow> nat" where
  "drawTurnCount gs = sum_list (map (\<lambda>g. length (g_layers g) + 2) gs) + 1"

text \<open>The progress calls of the callback, made when \<^verbatim>\<open>reportTime\<close> is set.\<close>

definition progressLog :: "'c \<Rightarrow> bool \<Rightarrow> 'l group list \<Rightarrow> ('c \<times> cbArg) list" where
  "progressLog c reportTime gs = (if reportTime then map (\<lambda>g. (c, Progress (g_name g))) gs else [])"

text \<open>The functions queued by \<^verbatim>\<open>drawGroup\<close> and by \<^verbatim>\<open>drawAll\<close>, in the order they run.\<close>

definition painterChain :: "string \<Rightarrow> nat \<Rightarrow> string \<Rightarrow> 'l list \<Rightarrow> ('l, 'c) kont \<Rightarrow> ('l, 'c) rcall cbFunc list" where
  "painterChain name bb tid layers k =
     map (\<lambda>l. SyncStep (PainterCall l name bb) tid) layers @ [FinalCallback (ReturnResult name k)]"

definition groupChain :: "'c \<Rightarrow> bool \<Rightarrow> string \<Rightarrow> 'l group list \<Rightarrow> ('l, 'c) rcall cbFunc list" where
  "groupChain c rt tid gs =
     map (\<lambda>g. AsyncStep (MakeDrawCall g c rt) tid) gs @ [FinalCallback (PutTogether c rt)]"

text \<open>The scheduler's bookkeeping: the turn counter, the queue and the messages posted.\<close>

definition book ::
  "nat \<Rightarrow> ('l, 'c) rcall func timeout list \<Rightarrow> nat \<Rightarrow> ('d, 'l, 'c) renderer \<Rightarrow> ('d, 'l, 'c) renderer" where
  "book t q z s = s\<lparr>turn := t, timeouts := q, zeroMessages := z\<rparr>"

text \<open>A painter that draws its layer and leaves the boxes as they are.\<close>

definition examplePainter :: "(nat, nat) painters" where
  "examplePainter layer srcs bbs = ([Painted layer], bbs)"

chapter \<open>Properties\<close>

section \<open>Worker task protocol\<close>

subsection \<open>Accumulating a result\<close>

lemma update_fresh: "k \<notin> fst ` set al \<Longrightarrow> AList.update k v al = al @ [(k, v)]"
  by (induction al) auto

lemma initJSON_fold:
  "distinct ks \<Longrightarrow> set ks \<inter> fst ` set acc = {} \<Longrightarrow>
   foldl (\<lambda>json key. AList.update key [] json) acc ks = acc @ map (\<lambda>k. (k, [])) ks"
proof (induction ks arbitrary: acc)
  case Nil
  then show ?case by simp
next
  case (Cons k ks)
  have "k \<notin> fst ` set acc" using Cons.prems by auto
  then have u: "AList.update k [] acc = acc @ [(k, [])]" by (rule update_fresh)
  have "set ks \<inter> fst ` set (acc @ [(k, [])]) = {}" using Cons.prems by auto
  with Cons.IH[of "acc @ [(k, [])]"] Cons.prems u show ?case by simp
qed

lemma initJSON_distinct:
  "distinct (map fst h) \<Longrightarrow> initJSON h = map (\<lambda>(k, n). (k, [])) h"
  using initJSON_fold[of "map fst h" "[]"] by (simp add: initJSON_def case_prod_unfold comp_def)

lemma update_tabulate:
  "distinct (map fst h) \<Longrightarrow> k \<in> fst ` set h \<Longrightarrow>
   AList.update k v (map (\<lambda>(k', n). (k', g k')) h) = map (\<lambda>(k', n). (k', (g(k := v)) k')) h"
proof (induction h)
  case Nil
  then show ?case by simp
next
  case (Cons p h)
  obtain k' n where p: "p = (k', n)" by (cases p)
  show ?case
  proof (cases "k' = k")
    case True
    then have "k \<notin> fst ` set h" using Cons.prems p by auto
    then have "map (\<lambda>(k', n). (k', g k')) h = map (\<lambda>(k', n). (k', (g(k := v)) k')) h"
      by (auto simp: image_iff)
    then show ?thesis using True p by simp
  next
    case False
    then show ?thesis using Cons p by auto
  qed
qed

lemma map_of_tabulate:
  "k \<in> fst ` set h \<Longrightarrow> map_of (map (\<lambda>(k', n). (k', g k')) h) k = Some (g k)"
  by (induction h) (auto split: if_splits)

lemma checkJSON_tabulate:
  "set h' \<subseteq> set h \<Longrightarrow>
   checkJSON (map (\<lambda>(k', n). (k', g k')) h) h' = Inr (\<forall>(k, n) \<in> set h'. int (length (g k)) = n)"
proof (induction h')
  case Nil
  then show ?case by simp
next
  case (Cons p h')
  obtain k n where p: "p = (k, n)" by (cases p)
  then have "k \<in> fst ` set h" using Cons.prems by force
  then have "map_of (map (\<lambda>(k', n). (k', g k')) h) k = Some (g k)" by (rule map_of_tabulate)
  then show ?case using Cons p by auto
qed

lemma handle_data_step:
  assumes "tasks w i = Some t" "result t = Some (tabulate h g)" "distinct (map fst h)"
    "k \<in> fst ` set h"
  shows "handleMsg w \<lparr>msg_id = i, msg_body = MData k fs\<rparr> =
      Inr (postMessage (Continue i) (setTask i (t\<lparr>result := Some (tabulate h (g(k := g k @ fs)))\<rparr>) w))"
  using assms update_tabulate[of h k "g k @ fs" g] map_of_tabulate[of k h g]
  by (simp add: handleMsg_def tabulate_def)

lemma collect_snoc: "collect k (ds @ [d]) = (if fst d = k then collect k ds @ snd d else collect k ds)"
  by (simp add: collect_def)

lemma handle_data_run:
  assumes "distinct (map fst h)"
  shows "tasks w i = Some t \<Longrightarrow> result t = Some (tabulate h g) \<Longrightarrow> fst ` set ds \<subseteq> fst ` set h \<Longrightarrow>
    \<exists>w'. handleMsgs w (dataMsgs i ds) = Inr w' \<and> calls w' = calls w \<and> activeTasks w' = activeTasks w \<and>
      tasks w' = (tasks w)(i \<mapsto> t\<lparr>result := Some (tabulate h (\<lambda>k. g k @ collect k ds))\<rparr>) \<and>
      (ds = [] \<or> outbox w' = outbox w @ replicate (length ds) (Continue i))"
proof (induction ds arbitrary: w t g)
  case Nil
  then show ?case by (auto simp: dataMsgs_def collect_def fun_eq_iff)
next
  case (Cons d ds)
  let ?w1 = "postMessage (Continue i) (setTask i (t\<lparr>result := Some (tabulate h (g(fst d := g (fst d) @ snd d)))\<rparr>) w)"
  let ?t1 = "t\<lparr>result := Some (tabulate h (g(fst d := g (fst d) @ snd d)))\<rparr>"
  have k: "fst d \<in> fst ` set h" using Cons.prems by auto
  have step: "handleMsg w \<lparr>msg_id = i, msg_body = MData (fst d) (snd d)\<rparr> = Inr ?w1"
    using handle_data_step[OF Cons.prems(1) Cons.prems(2) assms k] .
  have t1: "tasks ?w1 i = Some ?t1" by (simp add: postMessage_def setTask_def)
  have r1: "result ?t1 = Some (tabulate h (g(fst d := g (fst d) @ snd d)))" by simp
  have sub: "fst ` set ds \<subseteq> fst ` set h" using Cons.prems by auto
  from Cons.IH[OF t1 r1 sub] obtain w' where
    w': "handleMsgs ?w1 (dataMsgs i ds) = Inr w'" "calls w' = calls ?w1" "activeTasks w' = activeTasks ?w1"
       "tasks w' = (tasks ?w1)(i \<mapsto> ?t1\<lparr>result := Some (tabulate h (\<lambda>k. (g(fst d := g (fst d) @ snd d)) k @ collect k ds))\<rparr>)"
       "ds = [] \<or> outbox w' = outbox ?w1 @ replicate (length ds) (Continue i)"
    by blast
  have g: "(\<lambda>k. (g(fst d := g (fst d) @ snd d)) k @ collect k ds) = (\<lambda>k. g k @ collect k (d # ds))"
    by (auto simp: fun_eq_iff collect_def)
  have "handleMsgs w (dataMsgs i (d # ds)) = Inr w'"
    using step w'(1) by (simp add: dataMsgs_def)
  moreover have "calls w' = calls w" using w'(2) by (simp add: postMessage_def setTask_def)
  moreover have "activeTasks w' = activeTasks w" using w'(3) by (simp add: postMessage_def setTask_def)
  moreover have "tasks w' = (tasks w)(i \<mapsto> t\<lparr>result := Some (tabulate h (\<lambda>k. g k @ collect k (d # ds)))\<rparr>)"
    using w'(4) g by (simp add: postMessage_def setTask_def)
  moreover have "outbox w' = outbox w @ replicate (length (d # ds)) (Continue i)"
    using w'(5) w'(1) by (cases ds) (auto simp: postMessage_def setTask_def dataMsgs_def replicate_append_same)
  ultimately show ?case by blast
qed

lemma handle_header:
  "tasks w i = Some t \<Longrightarrow> handleMsg w \<lparr>msg_id = i, msg_body = MHeader h\<rparr> =
     Inr (postMessage (Continue i) (setTask i (t\<lparr>header := Some h, result := Some (initJSON h)\<rparr>) w))"
  by (simp add: handleMsg_def)

lemma handle_done_tabulate:
  "tasks w i = Some t \<Longrightarrow> header t = Some h \<Longrightarrow> result t = Some (tabulate h g) \<Longrightarrow>
   handleMsg w \<lparr>msg_id = i, msg_body = MDone\<rparr> =
     Inr (cleanUp i (invoke (callback t)
        (if (\<forall>(k, n) \<in> set h. int (length (g k)) = n) then None
         else Some (Message ''ERROR: JSON from worker failed checks!''))
        (Some (tabulate h g)) w))"
  using checkJSON_tabulate[of h h g] by (simp add: handleMsg_def tabulate_def)

lemma handleMsgs_append:
  "handleMsgs w (ms @ ns) = (case handleMsgs w ms of Inl e \<Rightarrow> Inl e | Inr w' \<Rightarrow> handleMsgs w' ns)"
  by (induction ms arbitrary: w) (auto split: sum.splits)

text \<open>
  Claim C2, as amended.  A tracked task receives a header \<open>h\<close> (its fields distinct, as the
  keys of an object are), then data batches \<open>ds\<close> for declared fields, then \<^verbatim>\<open>done\<close>.
  No message throws, the callback is invoked once, its first argument is \<^verbatim>\<open>null\<close> if and
  only if every declared field has accumulated exactly its declared number of features,
  and is the validation error otherwise; its second argument is the accumulated result
  in both cases, so a failed validation delivers the error together with the partial
  result.
\<close>

theorem done_validates_counts:
  assumes tracked: "tasks w i = Some t"
    and keys: "distinct (map fst h)"
    and declared: "fst ` set ds \<subseteq> fst ` set h"
  shows "\<exists>w'. handleMsgs w (\<lparr>msg_id = i, msg_body = MHeader h\<rparr> # dataMsgs i ds
                  @ [\<lparr>msg_id = i, msg_body = MDone\<rparr>]) = Inr w' \<and>
     calls w' = calls w @
       [\<lparr>call_cb = callback t,
         call_err = (if (\<forall>(k, n) \<in> set h. int (length (collect k ds)) = n) then None
                     else Some (Message ''ERROR: JSON from worker failed checks!'')),
         call_result = Some (tabulate h (\<lambda>k. collect k ds))\<rparr>]"
proof -
  let ?t0 = "t\<lparr>header := Some h, result := Some (initJSON h)\<rparr>"
  let ?w0 = "postMessage (Continue i) (setTask i ?t0 w)"
  have r0: "result ?t0 = Some (tabulate h (\<lambda>k. []))"
    using initJSON_distinct[OF keys] by (simp add: tabulate_def)
  have t0: "tasks ?w0 i = Some ?t0" by (simp add: postMessage_def setTask_def)
  from handle_data_run[OF keys t0 r0 declared] obtain w1 where
    w1: "handleMsgs ?w0 (dataMsgs i ds) = Inr w1" "calls w1 = calls ?w0"
      "tasks w1 = (tasks ?w0)(i \<mapsto> ?t0\<lparr>result := Some (tabulate h (\<lambda>k. [] @ collect k ds))\<rparr>)"
    by blast
  let ?t1 = "?t0\<lparr>result := Some (tabulate h (\<lambda>k. collect k ds))\<rparr>"
  have t1: "tasks w1 i = Some ?t1" using w1(3) by simp
  have d: "handleMsg w1 \<lparr>msg_id = i, msg_body = MDone\<rparr> =
     Inr (cleanUp i (invoke (callback ?t1)
        (if (\<forall>(k, n) \<in> set h. int (length (collect k ds)) = n) then None
         else Some (Message ''ERROR: JSON from worker failed checks!''))
        (Some (tabulate h (\<lambda>k. collect k ds))) w1))"
    by (rule handle_done_tabulate[OF t1]) simp_all
  have c: "calls w1 = calls w" using w1(2) by (simp add: postMessage_def setTask_def)
  show ?thesis
    using handle_header[OF tracked, of h] w1(1) d c
    by (simp add: handleMsgs_append cleanUp_def invoke_def)
qed

theorem done_validates_counts_witness:
  "\<exists>w'. handleMsgs (snd (startTask ''tile'' (7::nat) initWorker))
            [\<lparr>msg_id = 0, msg_body = MHeader [(''a'', 2)]\<rparr>,
             \<lparr>msg_id = 0, msg_body = MData ''a'' [1::nat]\<rparr>,
             \<lparr>msg_id = 0, msg_body = MData ''a'' [2]\<rparr>,
             \<lparr>msg_id = 0, msg_body = MDone\<rparr>] = Inr w' \<and>
        calls w' = [\<lparr>call_cb = 7, call_err = None, call_result = Some [(''a'', [1, 2])]\<rparr>]"
  using done_validates_counts [of "snd (startTask ''tile'' (7::nat) initWorker)" 0
      "\<lparr>callback = 7, header = None, result = None\<rparr>" "[(''a'', 2)]" "[(''a'', [1::nat]), (''a'', [2])]"]
  by (simp add: startTask_def postMessage_def initWorker_def dataMsgs_def collect_def tabulate_def)

text \<open>
  The claim as stated fails: with \<^verbatim>\<open>header:{a:2}\<close> and a single feature before \<^verbatim>\<open>done\<close>, the
  callback is called with the validation error and with the partial result.
\<close>

theorem done_partial_result_counterexample:
  "map_sum id calls
     (handleMsgs (snd (startTask ''tile'' (7::nat) initWorker))
        [\<lparr>msg_id = 0, msg_body = MHeader [(''a'', 2)]\<rparr>,
         \<lparr>msg_id = 0, msg_body = MData ''a'' [1::nat]\<rparr>,
         \<lparr>msg_id = 0, msg_body = MDone\<rparr>])
   = Inr [\<lparr>call_cb = 7,
           call_err = Some (Message ''ERROR: JSON from worker failed checks!''),
           call_result = Some [(''a'', [1])]\<rparr>]"
  by (simp add: startTask_def postMessage_def initWorker_def handleMsg_def initJSON_def
      setTask_def cleanUp_def invoke_def)

subsection \<open>Cancellation and the active-task counter\<close>

lemma cancel_idem: "cancelTask i (cancelTask i w) = cancelTask i w"
  by (simp add: cancelTask_def postMessage_def Let_def)

lemma cancel_untracked: "tasks w i = None \<Longrightarrow> cancelTask i w = w"
  by (simp add: cancelTask_def fun_upd_idem)

lemma late_reply: "tasks w (msg_id m) = None \<Longrightarrow> handleMsg w m = Inr (w\<lparr>outbox := outbox w @ [Cancel (msg_id m)]\<rparr>)"
  by (simp add: handleMsg_def postMessage_def)

lemma handleMsg_counter:
  "handleMsg w m = Inr w' \<Longrightarrow>
   activeTasks w' = (if tasks w (msg_id m) \<noteq> None \<and> terminal (msg_body m) then activeTasks w - 1 else activeTasks w)"
  by (auto simp: handleMsg_def postMessage_def cleanUp_def invoke_def setTask_def
      split: option.splits body.splits sum.splits)

lemma handleMsg_tasks:
  "handleMsg w m = Inr w' \<Longrightarrow>
   dom (tasks w') = (if terminal (msg_body m) then dom (tasks w) - {msg_id m} else dom (tasks w)) \<and> globalMsgId w' = globalMsgId w"
  by (auto simp: handleMsg_def postMessage_def cleanUp_def invoke_def setTask_def
      split: option.splits body.splits sum.splits if_splits)

lemma applyOp_wf: "wellFormed w \<Longrightarrow> wellFormed (applyOp x w)"
proof (cases x)
  case (OpStart p cb)
  then show "wellFormed w \<Longrightarrow> wellFormed (applyOp x w)"
    by (auto simp: wellFormed_def startTask_def postMessage_def Let_def less_Suc_eq)
next
  case (OpCancel i)
  then show "wellFormed w \<Longrightarrow> wellFormed (applyOp x w)"
    by (auto simp: wellFormed_def cancelTask_def postMessage_def Let_def)
next
  case (OpMsg m)
  show "wellFormed w \<Longrightarrow> wellFormed (applyOp x w)"
  proof (cases "handleMsg w m")
    case (Inl e)
    then show "wellFormed w \<Longrightarrow> wellFormed (applyOp x w)" using OpMsg by simp
  next
    case (Inr w')
    from handleMsg_tasks[OF Inr] show "wellFormed w \<Longrightarrow> wellFormed (applyOp x w)"
      using OpMsg Inr by (auto simp: wellFormed_def split: if_splits)
  qed
qed

lemma applyOp_balance:
  assumes "wellFormed w"
  shows "activeTasks (applyOp x w) - int (card (dom (tasks (applyOp x w)))) =
         activeTasks w - int (card (dom (tasks w))) + int (canceledPending [x] w)"
proof (cases x)
  case (OpStart p cb)
  have "globalMsgId w \<notin> dom (tasks w)" using assms by (auto simp: wellFormed_def)
  then show ?thesis using OpStart assms
    by (simp add: wellFormed_def startTask_def postMessage_def Let_def)
next
  case (OpCancel i)
  show ?thesis
  proof (cases "tasks w i")
    case None
    then show ?thesis using OpCancel by (simp add: cancel_untracked)
  next
    case (Some t)
    then have "i \<in> dom (tasks w)" by auto
    then have "card (dom (tasks w) - {i}) = card (dom (tasks w)) - 1" "card (dom (tasks w)) > 0"
      using assms by (auto simp: wellFormed_def card_gt_0_iff)
    then show ?thesis using OpCancel Some
      by (simp add: cancelTask_def postMessage_def Let_def)
  qed
next
  case (OpMsg m)
  show ?thesis
  proof (cases "handleMsg w m")
    case (Inl e)
    then show ?thesis using OpMsg by simp
  next
    case (Inr w')
    note c = handleMsg_counter[OF Inr] and d = handleMsg_tasks[OF Inr]
    show ?thesis
    proof (cases "tasks w (msg_id m) \<noteq> None \<and> terminal (msg_body m)")
      case True
      then have "msg_id m \<in> dom (tasks w)" by auto
      then have "card (dom (tasks w) - {msg_id m}) = card (dom (tasks w)) - 1" "card (dom (tasks w)) > 0"
        using assms by (auto simp: wellFormed_def card_gt_0_iff)
      then show ?thesis using OpMsg Inr c d True by simp
    next
      case False
      then have "dom (tasks w') = dom (tasks w)" using d by (auto split: if_splits)
      then show ?thesis using OpMsg Inr c False by auto
    qed
  qed
qed

lemma canceledPending_Cons:
  "canceledPending (x # xs) w = canceledPending [x] w + canceledPending xs (applyOp x w)"
  by (cases x) simp_all

lemma runOps_balance:
  "wellFormed w \<Longrightarrow>
   activeTasks (runOps xs w) - int (card (dom (tasks (runOps xs w)))) =
   activeTasks w - int (card (dom (tasks w))) + int (canceledPending xs w)"
proof (induction xs arbitrary: w)
  case Nil
  then show ?case by simp
next
  case (Cons x xs)
  have "wellFormed (applyOp x w)" using Cons.prems by (rule applyOp_wf)
  from Cons.IH[OF this] applyOp_balance[OF Cons.prems, of x] canceledPending_Cons[of x xs w]
  show ?case by simp
qed

text \<open>
  Claim C7.  A second \<^verbatim>\<open>cancelTask\<close> on the same id changes nothing: after the first call
  the id is not in the table, and on an id that is not in the table \<^verbatim>\<open>cancelTask\<close> posts
  no message and leaves the whole state as it is.  A response whose id is not in the
  table makes \<^verbatim>\<open>handleMsg\<close> post one cancel message for that id and nothing else: no
  callback is invoked.
\<close>

theorem cancelTask_twice_and_late_reply:
  "cancelTask i (cancelTask i w) = cancelTask i w \<and>
   tasks (cancelTask i w) i = None \<and>
   (tasks w i = None \<longrightarrow> cancelTask i w = w) \<and>
   (tasks w (msg_id m) = None \<longrightarrow>
      handleMsg w m = Inr (w\<lparr>outbox := outbox w @ [Cancel (msg_id m)]\<rparr>))"
  using cancel_idem [of i w] cancel_untracked [of w i] late_reply [of w m]
  by (simp add: cancelTask_def postMessage_def Let_def)

theorem cancelTask_twice_and_late_reply_witness:
  "cancelTask 0 (cancelTask 0 (snd (startTask ''tile'' (7::nat) initWorker)))
     = cancelTask 0 (snd (startTask ''tile'' (7::nat) initWorker)) \<and>
   outbox (cancelTask 0 (cancelTask 0 (snd (startTask ''tile'' (7::nat) initWorker))))
     = [Start 0 ''tile'', Cancel 0] \<and>
   map_sum id (\<lambda>w. (outbox w, calls w))
     (handleMsg (cancelTask 0 (snd (startTask ''tile'' (7::nat) initWorker)))
        \<lparr>msg_id = 0, msg_body = (MDone :: nat body)\<rparr>)
     = Inr ([Start 0 ''tile'', Cancel 0, Cancel 0], [])"
  using cancelTask_twice_and_late_reply
    [of 0 "snd (startTask ''tile'' (7::nat) initWorker)" "\<lparr>msg_id = 0, msg_body = (MDone :: nat body)\<rparr>"]
    cancelTask_twice_and_late_reply
    [of 0 "cancelTask 0 (snd (startTask ''tile'' (7::nat) initWorker))" "\<lparr>msg_id = 0, msg_body = (MDone :: nat body)\<rparr>"]
  by (simp add: startTask_def cancelTask_def postMessage_def initWorker_def)

text \<open>
  Claim C10.  \<^verbatim>\<open>startTask\<close> adds one to \<^verbatim>\<open>activeTasks\<close>; \<^verbatim>\<open>cancelTask\<close> removes the record
  and leaves the counter; \<^verbatim>\<open>handleMsg\<close> subtracts one exactly when the id is in the table
  and the message is terminal (error, done, or an unknown kind), and leaves the counter
  otherwise, in particular on a reply to a canceled id.  So along every run from the
  initial state the counter is the number of tasks in the table plus the number of
  tasks canceled while they were in the table: each of those raises it by one for good.
\<close>

theorem activeTasks_canceled_stay_counted:
  "activeTasks (snd (startTask payload cb w)) = activeTasks w + 1 \<and>
   activeTasks (cancelTask i w) = activeTasks w \<and>
   tasks (cancelTask i w) i = None \<and>
   (handleMsg w m = Inr w' \<longrightarrow>
      activeTasks w' =
        (if tasks w (msg_id m) \<noteq> None \<and> terminal (msg_body m)
         then activeTasks w - 1 else activeTasks w)) \<and>
   activeTasks (runOps xs initWorker) =
     int (card (dom (tasks (runOps xs (initWorker :: ('c, 'f) worker))))) +
     int (canceledPending xs (initWorker :: ('c, 'f) worker))"
proof -
  have wf: "wellFormed (initWorker :: ('c, 'f) worker)"
    by (simp add: wellFormed_def initWorker_def)
  have "activeTasks (runOps xs initWorker) =
     int (card (dom (tasks (runOps xs (initWorker :: ('c, 'f) worker))))) +
     int (canceledPending xs (initWorker :: ('c, 'f) worker))"
    using runOps_balance [OF wf, of xs] by (simp add: initWorker_def)
  moreover have "activeTasks (snd (startTask payload cb w)) = activeTasks w + 1"
    by (simp add: startTask_def postMessage_def Let_def)
  moreover have "activeTasks (cancelTask i w) = activeTasks w \<and> tasks (cancelTask i w) i = None"
    by (simp add: cancelTask_def postMessage_def Let_def)
  ultimately show ?thesis
    using handleMsg_counter [of w m w'] by blast
qed

theorem activeTasks_canceled_stay_counted_witness:
  "activeTasks (runOps [OpStart ''tile'' (7::nat), OpCancel 0,
       OpMsg \<lparr>msg_id = 0, msg_body = (MDone :: nat body)\<rparr>] initWorker) = 1 \<and>
   tasks (runOps [OpStart ''tile'' (7::nat), OpCancel 0,
       OpMsg \<lparr>msg_id = 0, msg_body = (MDone :: nat body)\<rparr>] initWorker) 0 = None \<and>
   canceledPending [OpStart ''tile'' (7::nat), OpCancel 0,
       OpMsg \<lparr>msg_id = 0, msg_body = (MDone :: nat body)\<rparr>] initWorker = 1"
  using activeTasks_canceled_stay_counted
    [of "''tile''" "7::nat" "initWorker :: (nat, nat) worker" 0
        "\<lparr>msg_id = 0, msg_body = (MDone :: nat body)\<rparr>"
        "cancelTask 0 (snd (startTask ''tile'' (7::nat) initWorker))"
        "[OpStart ''tile'' (7::nat), OpCancel 0, OpMsg \<lparr>msg_id = 0, msg_body = (MDone :: nat body)\<rparr>]"]
  by (simp add: startTask_def cancelTask_def postMessage_def initWorker_def handleMsg_def)

section \<open>Style functions\<close>

lemma findIndex_None: "findIndex p xs = None \<longleftrightarrow> (\<forall>x \<in> set xs. \<not> p x)"
  by (induction xs) auto

lemma findIndex_Some:
  "findIndex p xs = Some i \<Longrightarrow> i < length xs \<and> p (xs ! i) \<and> (\<forall>j < i. \<not> p (xs ! j))"
proof (induction xs arbitrary: i)
  case Nil
  then show ?case by simp
next
  case (Cons x xs)
  show ?case
  proof (cases "p x")
    case True
    then show ?thesis using Cons.prems by simp
  next
    case False
    then obtain k where k: "findIndex p xs = Some k" "i = Suc k" using Cons.prems by auto
    from Cons.IH[OF k(1)] False k(2) show ?thesis by (auto simp: less_Suc_eq_0_disj)
  qed
qed

lemma increasing_nth:
  assumes "increasing stops" "a < b" "b < length stops"
  shows "fst (stops ! a) < fst (stops ! b)"
  using assms by (simp add: increasing_def sorted_wrt_iff_nth_less)

lemma increasing_nth_le:
  assumes "increasing stops" "a \<le> b" "b < length stops"
  shows "fst (stops ! a) \<le> fst (stops ! b)"
proof (cases "a = b")
  case True
  then show ?thesis by simp
next
  case False
  then have "a < b" using assms(2) by simp
  from increasing_nth[OF assms(1) this assms(3)] show ?thesis by simp
qed

lemma findIndex_bracket:
  assumes inc: "increasing stops" and j: "Suc j < length stops"
    and lo: "fst (stops ! j) \<le> x" and hi: "x < fst (stops ! Suc j)"
  shows "findIndex (\<lambda>s. fst s > x) stops = Some (Suc j)"
proof -
  have "stops ! Suc j \<in> set stops" using j by simp
  then have "findIndex (\<lambda>s. fst s > x) stops \<noteq> None"
    using hi by (auto simp: findIndex_None)
  then obtain i where i: "findIndex (\<lambda>s. fst s > x) stops = Some i" by auto
  note p = findIndex_Some[OF i]
  have "\<not> i \<le> j"
  proof
    assume "i \<le> j"
    from increasing_nth_le[OF inc this] j have "fst (stops ! i) \<le> fst (stops ! j)" by simp
    with lo p show False by simp
  qed
  moreover have "\<not> Suc j < i"
  proof
    assume "Suc j < i"
    with p have "\<not> fst (stops ! Suc j) > x" by blast
    with hi show False by simp
  qed
  ultimately have "i = Suc j" by simp
  with i show ?thesis by simp
qed

lemma readStops_table: "readStops (map (\<lambda>s. Arr [Num (fst s), snd s]) stops) = Some stops"
proof -
  have "list_all (\<lambda>v. readStop v \<noteq> None) (map (\<lambda>s. Arr [Num (fst s), snd s]) stops)"
    by (simp add: list_all_iff readStop_def)
  moreover have "map (\<lambda>v. the (readStop v)) (map (\<lambda>s. Arr [Num (fst s), snd s]) stops) = stops"
    by (induction stops) (simp_all add: readStop_def)
  ultimately show ?thesis by (simp add: readStops_def)
qed

lemma apply_table:
  assumes "sf_stops sf = table stops"
  shows "applyStopFunc parseCSSColor sf (Num x) =
     (case findIndex (\<lambda>stop. fst stop > x) stops of
        None \<Rightarrow> outputAt stops (length stops - 1)
      | Some 0 \<Rightarrow> outputAt stops 0
      | Some (Suc j) \<Rightarrow>
          if Suc j < length stops
          then interpolate parseCSSColor (sf_interpolate sf) (snd (stops ! j)) (snd (stops ! Suc j))
                 (interpFactor (sf_base sf) (fst (stops ! j)) x (fst (stops ! Suc j)))
          else Throws TypeError)"
  using assms readStops_table[of stops]
  by (simp add: applyStopFunc_def table_def toNumber_def bindO_def Let_def split: option.split nat.split)

lemma apply_below:
  assumes "sf_stops sf = table stops" "stops \<noteq> []" "x < fst (hd stops)"
  shows "applyStopFunc parseCSSColor sf (Num x) = Returns (snd (hd stops))"
proof -
  obtain s rest where "stops = s # rest" using assms(2) by (cases stops) auto
  then show ?thesis using assms(3) by (simp add: apply_table[OF assms(1)] outputAt_def)
qed

lemma apply_above:
  assumes "sf_stops sf = table stops" "stops \<noteq> []" "increasing stops" "fst (last stops) \<le> x"
  shows "applyStopFunc parseCSSColor sf (Num x) = Returns (snd (last stops))"
proof -
  have "\<not> fst s > x" if "s \<in> set stops" for s
  proof -
    from that obtain i where i: "i < length stops" "stops ! i = s" by (auto simp: in_set_conv_nth)
    have "i \<le> length stops - 1" "length stops - 1 < length stops" using i assms(2) by simp_all
    from increasing_nth_le[OF assms(3) this] i assms(2,4) show ?thesis by (simp add: last_conv_nth)
  qed
  then have "findIndex (\<lambda>stop. fst stop > x) stops = None" by (simp add: findIndex_None)
  then show ?thesis using assms(2)
    by (simp add: apply_table[OF assms(1)] outputAt_def last_conv_nth)
qed

lemma apply_between:
  assumes "sf_stops sf = table stops" "increasing stops" "Suc j < length stops"
    "fst (stops ! j) \<le> x" "x < fst (stops ! Suc j)"
  shows "applyStopFunc parseCSSColor sf (Num x) =
     interpolate parseCSSColor (sf_interpolate sf) (snd (stops ! j)) (snd (stops ! Suc j))
       (interpFactor (sf_base sf) (fst (stops ! j)) x (fst (stops ! Suc j)))"
  using findIndex_bracket[OF assms(2-5)] assms(3) by (simp add: apply_table[OF assms(1)])

lemma interpFactor_one: "x0 < x1 \<Longrightarrow> interpFactor 1 x0 x x1 = Some ((x - x0) / (x1 - x0))"
  by (simp add: interpFactor_def)

lemma interpFactor_positive:
  assumes "0 < b" "b \<noteq> 1" "x0 < x1"
  shows "interpFactor b x0 x x1 = Some ((b powr (x - x0) - 1) / (b powr (x1 - x0) - 1))"
proof -
  have "b powr (x1 - x0) \<noteq> 1"
    using assms by (simp add: powr_eq_one_iff_gen)
  moreover have "mathPow b (x - x0) = Some (b powr (x - x0))"
    using assms(1) by (simp add: mathPow_def)
  moreover have "mathPow b (x1 - x0) = Some (b powr (x1 - x0))"
    using assms by (simp add: mathPow_def)
  ultimately show ?thesis using assms by (simp add: interpFactor_def)
qed

lemma interpFactor_zero:
  assumes "x0 \<le> x" "x0 < x1"
  shows "interpFactor 0 x0 x x1 = Some (if x = x0 then 0 else 1)"
  using assms by (simp add: interpFactor_def mathPow_def)

lemma interpFactor_spec:
  assumes "0 < b"
  shows "interpFactor b x0 x x1 = Some (specFactor b x0 x x1)"
proof (cases "x1 = x0")
  case True
  then show ?thesis by (simp add: interpFactor_def specFactor_def)
next
  case False
  have "b powr (x1 - x0) \<noteq> 1" if "b \<noteq> 1"
    using assms that False by (simp add: powr_eq_one_iff_gen)
  moreover have "mathPow b e = Some (b powr e)" for e
    using assms by (simp add: mathPow_def)
  ultimately show ?thesis using False by (simp add: interpFactor_def specFactor_def)
qed

lemma interpFactor_negative:
  assumes "b < 0" "x - x0 = real_of_int m" "x1 - x0 = real_of_int n" "n \<noteq> 0" "b powi n \<noteq> 1"
  shows "interpFactor b x0 x x1 = Some ((b powi m - 1) / (b powi n - 1))"
proof -
  have "mathPow b (real_of_int k) = Some (b powi k)" for k
    using assms(1) by (simp add: mathPow_def)
  then show ?thesis using assms by (simp add: interpFactor_def)
qed

lemma apply_linear:
  assumes sf: "sf_stops sf = table stops" "sf_interpolate sf = Linear"
    and inc: "increasing stops" and j: "Suc j < length stops"
    and lo: "stops ! j = (x0, Num v0)" and hi: "stops ! Suc j = (x1, Num v1)"
    and x: "x0 \<le> x" "x < x1"
    and t: "interpFactor (sf_base sf) x0 x x1 = Some t"
  shows "applyStopFunc parseCSSColor sf (Num x) = Returns (Num (v0 + t * (v1 - v0)))"
proof -
  have "applyStopFunc parseCSSColor sf (Num x) =
     interpolate parseCSSColor (sf_interpolate sf) (snd (stops ! j)) (snd (stops ! Suc j))
       (interpFactor (sf_base sf) (fst (stops ! j)) x (fst (stops ! Suc j)))"
    using x lo hi by (intro apply_between[OF sf(1) inc j]) simp_all
  then show ?thesis using sf(2) lo hi t by (simp add: interpolate_def)
qed

lemma apply_color:
  assumes sf: "sf_stops sf = table stops" "sf_interpolate sf = Color"
    and inc: "increasing stops" and j: "Suc j < length stops"
    and lo: "stops ! j = (x0, Str s0)" and hi: "stops ! Suc j = (x1, Str s1)"
    and x: "x0 \<le> x" "x < x1"
    and c0: "parseCSSColor s0 = Returns (Some (r0, g0, b0, a0))"
    and c1: "parseCSSColor s1 = Returns (Some (r1, g1, b1, a1))"
    and t: "interpFactor (sf_base sf) x0 x x1 = Some t"
  shows "applyStopFunc parseCSSColor sf (Num x) =
     Returns (Rgba \<lfloor>r0 + t * (r1 - r0) + 1 / 2\<rfloor> \<lfloor>g0 + t * (g1 - g0) + 1 / 2\<rfloor>
                   \<lfloor>b0 + t * (b1 - b0) + 1 / 2\<rfloor> (a0 + t * (a1 - a0)))"
proof -
  have "applyStopFunc parseCSSColor sf (Num x) =
     interpolate parseCSSColor (sf_interpolate sf) (snd (stops ! j)) (snd (stops ! Suc j))
       (interpFactor (sf_base sf) (fst (stops ! j)) x (fst (stops ! Suc j)))"
    using x lo hi by (intro apply_between[OF sf(1) inc j]) simp_all
  then show ?thesis using sf(2) lo hi t c0 c1
    by (simp add: interpolate_def parseColorArg_def bindO_def interpColor_def mathRound_def)
qed

lemma apply_step:
  assumes sf: "sf_stops sf = table stops" "sf_interpolate sf = Step"
    and inc: "increasing stops" and j: "Suc j < length stops"
    and x: "fst (stops ! j) \<le> x" "x < fst (stops ! Suc j)"
  shows "applyStopFunc parseCSSColor sf (Num x) = Returns (snd (stops ! j))"
  using apply_between[OF sf(1) inc j x, of parseCSSColor] sf(2) by (simp add: interpolate_def)

lemma apply_converted:
  assumes "toNumber a = toNumber b"
  shows "applyStopFunc parseCSSColor sf a = applyStopFunc parseCSSColor sf b"
  using assms by (simp add: applyStopFunc_def split: val.split option.split)

lemma build_closure:
  assumes "stops \<noteq> []" "getInterpolator parseCSSColor (snd (hd stops)) = Returns f"
  shows "buildStopFunc parseCSSColor (table stops) base = Returns (closureOf stops base f)"
proof -
  obtain s rest where st: "stops = s # rest" using assms(1) by (cases stops) auto
  then show ?thesis using assms(2)
    by (simp add: buildStopFunc_def table_def lengthOf_def toNumber_def elemOf_def bindO_def
        closureOf_def baseOf_def)
qed

text \<open>
  Claim C1.  Take a table of at least two stops \<^verbatim>\<open>[input, output]\<close> with strictly increasing
  inputs.  \<^verbatim>\<open>buildStopFunc\<close> returns the closure over the table, the base and the interpolator
  that fits the first output: the linear one for a number, the colour one for a string
  the parser reads as a colour, the step function for another string.  At a number \<open>x\<close>
  below the first input the closure returns the first output, at or above the last
  input the last output; \<^verbatim>\<open>undefined\<close> gets the last output too, and \<^verbatim>\<open>null\<close>, \<^verbatim>\<open>true\<close> and the
  string \<^verbatim>\<open>"5"\<close> are treated as the numbers 0, 1 and 5.  For \<open>x\<close> between two adjacent stops \<open>(x\<^sub>l, v\<^sub>l)\<close>, \<open>(x\<^sub>h, v\<^sub>h)\<close>,
  \<open>x\<^sub>l \<le> x < x\<^sub>h\<close>, of a table of numbers it returns \<open>v\<^sub>l + t (v\<^sub>h - v\<^sub>l)\<close>, where
  \<open>t = (x - x\<^sub>l) / (x\<^sub>h - x\<^sub>l)\<close> when the base is 1 and
  \<open>t = (base\<^bsup>x - x\<^sub>l\<^esup> - 1) / (base\<^bsup>x\<^sub>h - x\<^sub>l\<^esup> - 1)\<close> for another positive base; for base 0, where the
  powers are \<open>0\<^sup>0 = 1\<close> and \<open>0\<^sup>d = 0\<close>, that is \<open>t = 0\<close> at \<open>x\<^sub>l\<close> and \<open>t = 1\<close> after it.  In a table
  of colours the four components are interpolated with the same \<open>t\<close>, the first three
  rounded; in a table of other strings the output of the lower stop is returned.
  \<^verbatim>\<open>interpFactor\<close> returns this \<open>t\<close>, and 0 when the two inputs are equal; for a negative base it
  returns the same quotient when the two exponents are integers and the denominator is
  not 0 (the powers are not real numbers otherwise).  The table \<^verbatim>\<open>[[0, a], [10, c]]\<close> with
  base 1 gives \<open>(a + c) / 2\<close> at 5.
\<close>

theorem stop_function_clamps_and_interpolates:
  assumes "2 \<le> length stops" and "increasing stops"
  shows
   "(snd (hd stops) = Num u \<longrightarrow>
       buildStopFunc parseCSSColor (table stops) base = Returns (closureOf stops base Linear)) \<and>
    (snd (hd stops) = Str c \<and> parseCSSColor c = Returns (Some rgba) \<longrightarrow>
       buildStopFunc parseCSSColor (table stops) base = Returns (closureOf stops base Color)) \<and>
    (snd (hd stops) = Str c \<and> parseCSSColor c = Returns None \<longrightarrow>
       buildStopFunc parseCSSColor (table stops) base = Returns (closureOf stops base Step)) \<and>
    (x < fst (hd stops) \<longrightarrow>
       applyStopFunc parseCSSColor (closureOf stops base f) (Num x) = Returns (snd (hd stops))) \<and>
    (fst (last stops) \<le> x \<longrightarrow>
       applyStopFunc parseCSSColor (closureOf stops base f) (Num x) = Returns (snd (last stops))) \<and>
    applyStopFunc parseCSSColor (closureOf stops base f) Undefined = Returns (snd (last stops)) \<and>
    applyStopFunc parseCSSColor sf Null = applyStopFunc parseCSSColor sf (Num 0) \<and>
    applyStopFunc parseCSSColor sf (Bool True) = applyStopFunc parseCSSColor sf (Num 1) \<and>
    applyStopFunc parseCSSColor sf (Str ''5'') = applyStopFunc parseCSSColor sf (Num 5) \<and>
    (Suc j < length stops \<and> stops ! j = (xl, Num vl) \<and> stops ! Suc j = (xh, Num vh) \<and>
     xl \<le> x \<and> x < xh \<longrightarrow>
       (baseOf base = 1 \<longrightarrow>
          applyStopFunc parseCSSColor (closureOf stops base Linear) (Num x)
            = Returns (Num (vl + (x - xl) / (xh - xl) * (vh - vl)))) \<and>
       (0 < baseOf base \<and> baseOf base \<noteq> 1 \<longrightarrow>
          applyStopFunc parseCSSColor (closureOf stops base Linear) (Num x)
            = Returns (Num (vl + (baseOf base powr (x - xl) - 1) / (baseOf base powr (xh - xl) - 1)
                                  * (vh - vl)))) \<and>
       (baseOf base = 0 \<longrightarrow>
          applyStopFunc parseCSSColor (closureOf stops base Linear) (Num x)
            = Returns (Num (vl + (if x = xl then 0 else 1) * (vh - vl))))) \<and>
    (Suc j < length stops \<and> stops ! j = (xl, Str sl) \<and> stops ! Suc j = (xh, Str sh) \<and>
     xl \<le> x \<and> x < xh \<and>
     parseCSSColor sl = Returns (Some (rl, gl, bl, al)) \<and>
     parseCSSColor sh = Returns (Some (rh, gh, bh, ah)) \<and>
     0 < baseOf base \<and> t = specFactor (baseOf base) xl x xh \<longrightarrow>
       applyStopFunc parseCSSColor (closureOf stops base Color) (Num x)
         = Returns (Rgba \<lfloor>rl + t * (rh - rl) + 1 / 2\<rfloor> \<lfloor>gl + t * (gh - gl) + 1 / 2\<rfloor>
                         \<lfloor>bl + t * (bh - bl) + 1 / 2\<rfloor> (al + t * (ah - al)))) \<and>
    (Suc j < length stops \<and> fst (stops ! j) \<le> x \<and> x < fst (stops ! Suc j) \<longrightarrow>
       applyStopFunc parseCSSColor (closureOf stops base Step) (Num x) = Returns (snd (stops ! j))) \<and>
    (0 < b \<longrightarrow> interpFactor b yl y yh = Some (specFactor b yl y yh)) \<and>
    interpFactor b yl y yl = Some 0 \<and>
    (b < 0 \<and> y - yl = real_of_int m \<and> yh - yl = real_of_int n \<and> n \<noteq> 0 \<and> b powi n \<noteq> 1 \<longrightarrow>
       interpFactor b yl y yh = Some ((b powi m - 1) / (b powi n - 1))) \<and>
    buildStopFunc parseCSSColor (table [(0, Num a), (10, Num c')]) (Some 1)
      = Returns (closureOf [(0, Num a), (10, Num c')] (Some 1) Linear) \<and>
    applyStopFunc parseCSSColor (closureOf [(0, Num a), (10, Num c')] (Some 1) Linear) (Num 5)
      = Returns (Num ((a + c') / 2))"
proof -
  have ne: "stops \<noteq> []" using assms(1) by auto
  have st: "sf_stops (closureOf stops base g) = table stops"
    and bs: "sf_base (closureOf stops base g) = baseOf base"
    and ip: "sf_interpolate (closureOf stops base g) = g" for g
    by (simp_all add: closureOf_def)
  have blin: "snd (hd stops) = Num u \<longrightarrow>
       buildStopFunc parseCSSColor (table stops) base = Returns (closureOf stops base Linear)"
    using build_closure[OF ne, of parseCSSColor Linear base] by (simp add: getInterpolator_def)
  have bcol: "snd (hd stops) = Str c \<and> parseCSSColor c = Returns (Some rgba) \<longrightarrow>
       buildStopFunc parseCSSColor (table stops) base = Returns (closureOf stops base Color)"
    using build_closure[OF ne, of parseCSSColor Color base]
    by (cases rgba) (auto simp: getInterpolator_def bindO_def)
  have bstp: "snd (hd stops) = Str c \<and> parseCSSColor c = Returns None \<longrightarrow>
       buildStopFunc parseCSSColor (table stops) base = Returns (closureOf stops base Step)"
    using build_closure[OF ne, of parseCSSColor Step base] by (simp add: getInterpolator_def bindO_def)
  have below: "x < fst (hd stops) \<longrightarrow>
       applyStopFunc parseCSSColor (closureOf stops base f) (Num x) = Returns (snd (hd stops))"
    using apply_below[OF st ne] by blast
  have above: "fst (last stops) \<le> x \<longrightarrow>
       applyStopFunc parseCSSColor (closureOf stops base f) (Num x) = Returns (snd (last stops))"
    using apply_above[OF st ne assms(2)] by blast
  have undef: "applyStopFunc parseCSSColor (closureOf stops base f) Undefined = Returns (snd (last stops))"
    using readStops_table[of stops] ne
    by (simp add: applyStopFunc_def closureOf_def table_def toNumber_def bindO_def Let_def outputAt_def
        last_conv_nth)
  have null: "applyStopFunc parseCSSColor sf Null = applyStopFunc parseCSSColor sf (Num 0)"
    by (rule apply_converted) (simp add: toNumber_def)
  have true: "applyStopFunc parseCSSColor sf (Bool True) = applyStopFunc parseCSSColor sf (Num 1)"
    by (rule apply_converted) (simp add: toNumber_def)
  have five: "applyStopFunc parseCSSColor sf (Str ''5'') = applyStopFunc parseCSSColor sf (Num 5)"
    by (rule apply_converted) (simp add: toNumber_def isDigits_def digitsValue_def)
  have numeric: "Suc j < length stops \<and> stops ! j = (xl, Num vl) \<and> stops ! Suc j = (xh, Num vh) \<and>
     xl \<le> x \<and> x < xh \<longrightarrow>
       (baseOf base = 1 \<longrightarrow>
          applyStopFunc parseCSSColor (closureOf stops base Linear) (Num x)
            = Returns (Num (vl + (x - xl) / (xh - xl) * (vh - vl)))) \<and>
       (0 < baseOf base \<and> baseOf base \<noteq> 1 \<longrightarrow>
          applyStopFunc parseCSSColor (closureOf stops base Linear) (Num x)
            = Returns (Num (vl + (baseOf base powr (x - xl) - 1) / (baseOf base powr (xh - xl) - 1)
                                  * (vh - vl)))) \<and>
       (baseOf base = 0 \<longrightarrow>
          applyStopFunc parseCSSColor (closureOf stops base Linear) (Num x)
            = Returns (Num (vl + (if x = xl then 0 else 1) * (vh - vl))))"
  proof (intro impI, elim conjE)
    assume h: "Suc j < length stops" "stops ! j = (xl, Num vl)" "stops ! Suc j = (xh, Num vh)"
      "xl \<le> x" "x < xh"
    have lt: "xl < xh" using h(4,5) by simp
    note ap = apply_linear[OF st ip assms(2) h(1) h(2) h(3) h(4) h(5), where parseCSSColor = parseCSSColor]
    have 1: "baseOf base = 1 \<longrightarrow>
          applyStopFunc parseCSSColor (closureOf stops base Linear) (Num x)
            = Returns (Num (vl + (x - xl) / (xh - xl) * (vh - vl)))"
      using ap[where t = "(x - xl) / (xh - xl)"] interpFactor_one[OF lt, of x] bs by simp
    have 2: "0 < baseOf base \<and> baseOf base \<noteq> 1 \<longrightarrow>
          applyStopFunc parseCSSColor (closureOf stops base Linear) (Num x)
            = Returns (Num (vl + (baseOf base powr (x - xl) - 1) / (baseOf base powr (xh - xl) - 1)
                                  * (vh - vl)))"
      using ap[where t = "(baseOf base powr (x - xl) - 1) / (baseOf base powr (xh - xl) - 1)"]
        interpFactor_positive[of "baseOf base" xl xh x] lt bs by simp
    have 3: "baseOf base = 0 \<longrightarrow>
          applyStopFunc parseCSSColor (closureOf stops base Linear) (Num x)
            = Returns (Num (vl + (if x = xl then 0 else 1) * (vh - vl)))"
      using ap[where t = "if x = xl then 0 else 1"] interpFactor_zero[OF h(4) lt] bs by simp
    from 1 2 3 show "(baseOf base = 1 \<longrightarrow>
          applyStopFunc parseCSSColor (closureOf stops base Linear) (Num x)
            = Returns (Num (vl + (x - xl) / (xh - xl) * (vh - vl)))) \<and>
       (0 < baseOf base \<and> baseOf base \<noteq> 1 \<longrightarrow>
          applyStopFunc parseCSSColor (closureOf stops base Linear) (Num x)
            = Returns (Num (vl + (baseOf base powr (x - xl) - 1) / (baseOf base powr (xh - xl) - 1)
                                  * (vh - vl)))) \<and>
       (baseOf base = 0 \<longrightarrow>
          applyStopFunc parseCSSColor (closureOf stops base Linear) (Num x)
            = Returns (Num (vl + (if x = xl then 0 else 1) * (vh - vl))))"
      by blast
  qed
  have colour: "Suc j < length stops \<and> stops ! j = (xl, Str sl) \<and> stops ! Suc j = (xh, Str sh) \<and>
     xl \<le> x \<and> x < xh \<and>
     parseCSSColor sl = Returns (Some (rl, gl, bl, al)) \<and>
     parseCSSColor sh = Returns (Some (rh, gh, bh, ah)) \<and>
     0 < baseOf base \<and> t = specFactor (baseOf base) xl x xh \<longrightarrow>
       applyStopFunc parseCSSColor (closureOf stops base Color) (Num x)
         = Returns (Rgba \<lfloor>rl + t * (rh - rl) + 1 / 2\<rfloor> \<lfloor>gl + t * (gh - gl) + 1 / 2\<rfloor>
                         \<lfloor>bl + t * (bh - bl) + 1 / 2\<rfloor> (al + t * (ah - al)))"
  proof (intro impI, elim conjE)
    assume h: "Suc j < length stops" "stops ! j = (xl, Str sl)" "stops ! Suc j = (xh, Str sh)"
      "xl \<le> x" "x < xh"
      "parseCSSColor sl = Returns (Some (rl, gl, bl, al))"
      "parseCSSColor sh = Returns (Some (rh, gh, bh, ah))"
      "0 < baseOf base" "t = specFactor (baseOf base) xl x xh"
    have t: "interpFactor (sf_base (closureOf stops base Color)) xl x xh = Some t"
      using interpFactor_spec[OF h(8)] h(9) bs by simp
    show "applyStopFunc parseCSSColor (closureOf stops base Color) (Num x)
         = Returns (Rgba \<lfloor>rl + t * (rh - rl) + 1 / 2\<rfloor> \<lfloor>gl + t * (gh - gl) + 1 / 2\<rfloor>
                         \<lfloor>bl + t * (bh - bl) + 1 / 2\<rfloor> (al + t * (ah - al)))"
      by (rule apply_color[OF st ip assms(2) h(1) h(2) h(3) h(4) h(5) h(6) h(7) t])
  qed
  have step: "Suc j < length stops \<and> fst (stops ! j) \<le> x \<and> x < fst (stops ! Suc j) \<longrightarrow>
       applyStopFunc parseCSSColor (closureOf stops base Step) (Num x) = Returns (snd (stops ! j))"
    using apply_step[OF st ip assms(2), where parseCSSColor = parseCSSColor and j = j and x = x] by blast
  have fac: "0 < b \<longrightarrow> interpFactor b yl y yh = Some (specFactor b yl y yh)"
    using interpFactor_spec[of b yl y yh] by blast
  have deg: "interpFactor b yl y yl = Some 0" by (simp add: interpFactor_def)
  have neg: "b < 0 \<and> y - yl = real_of_int m \<and> yh - yl = real_of_int n \<and> n \<noteq> 0 \<and> b powi n \<noteq> 1 \<longrightarrow>
       interpFactor b yl y yh = Some ((b powi m - 1) / (b powi n - 1))"
    using interpFactor_negative[of b y yl m yh n] by blast
  have bmid: "buildStopFunc parseCSSColor (table [(0, Num a), (10, Num c')]) (Some 1)
      = Returns (closureOf [(0, Num a), (10, Num c')] (Some 1) Linear)"
    using build_closure[of "[(0, Num a), (10, Num c')]" parseCSSColor Linear "Some 1"]
    by (simp add: getInterpolator_def)
  have mid: "applyStopFunc parseCSSColor (closureOf [(0, Num a), (10, Num c')] (Some 1) Linear) (Num 5)
      = Returns (Num ((a + c') / 2))"
    by (simp add: applyStopFunc_def closureOf_def baseOf_def table_def readStops_def readStop_def
        toNumber_def bindO_def interpFactor_def interpolate_def field_simps)
  from blin bcol bstp below above undef null true five numeric colour step fac deg neg bmid mid
  show ?thesis by blast
qed

theorem stop_function_clamps_and_interpolates_witness:
  "buildStopFunc noColors (table [(0, Num 2), (10, Num 4)]) None
     = Returns (closureOf [(0, Num 2), (10, Num 4)] None Linear) \<and>
   applyStopFunc noColors (closureOf [(0, Num 2), (10, Num 4)] None Linear) (Num (- 1)) = Returns (Num 2) \<and>
   applyStopFunc noColors (closureOf [(0, Num 2), (10, Num 4)] None Linear) (Num 12) = Returns (Num 4) \<and>
   applyStopFunc noColors (closureOf [(0, Num 2), (10, Num 4)] None Linear) (Num 5) = Returns (Num 3) \<and>
   applyStopFunc noColors (closureOf [(0, Num 2), (10, Num 4)] (Some 0) Linear) (Num 0) = Returns (Num 2) \<and>
   applyStopFunc noColors (closureOf [(0, Num 2), (10, Num 4)] (Some 0) Linear) (Num 5) = Returns (Num 4) \<and>
   applyStopFunc noColors (closureOf [(0, Num 2), (10, Num 4)] None Linear) (Str ''5'') = Returns (Num 3) \<and>
   applyStopFunc twoColors (closureOf [(0, Str ''red''), (10, Str ''blue'')] None Color) (Num 5)
     = Returns (Rgba 128 0 128 1)"
proof -
  let ?stops = "[(0, Num 2), (10, Num 4)] :: stop list"
  let ?cols = "[(0, Str ''red''), (10, Str ''blue'')] :: stop list"
  have len: "2 \<le> length ?stops" by simp
  have inc: "increasing ?stops" by (simp add: increasing_def)
  have lenc: "2 \<le> length ?cols" by simp
  have incc: "increasing ?cols" by (simp add: increasing_def)
  note t = stop_function_clamps_and_interpolates [OF len inc]
  have "buildStopFunc noColors (table ?stops) None = Returns (closureOf ?stops None Linear)"
    using t [where u = 2 and parseCSSColor = noColors and base = None] by simp
  moreover have "applyStopFunc noColors (closureOf ?stops None Linear) (Num (- 1)) = Returns (Num 2)"
    using t [where x = "- 1" and parseCSSColor = noColors and base = None and f = Linear] by simp
  moreover have "applyStopFunc noColors (closureOf ?stops None Linear) (Num 12) = Returns (Num 4)"
    using t [where x = 12 and parseCSSColor = noColors and base = None and f = Linear] by simp
  moreover have "applyStopFunc noColors (closureOf ?stops None Linear) (Num 5) = Returns (Num 3)"
    using t [where x = 5 and j = 0 and xl = 0 and xh = 10 and vl = 2 and vh = 4
        and parseCSSColor = noColors and base = None and a = 7 and c' = 7]
    by (simp add: baseOf_def)
  moreover have "applyStopFunc noColors (closureOf ?stops None Linear) (Str ''5'') = Returns (Num 3)"
    using t [where x = 5 and j = 0 and xl = 0 and xh = 10 and vl = 2 and vh = 4
        and parseCSSColor = noColors and base = None and a = 7 and c' = 7
        and sf = "closureOf ?stops None Linear"]
    by (simp add: baseOf_def)
  moreover have "applyStopFunc noColors (closureOf ?stops (Some 0) Linear) (Num 0) = Returns (Num 2)"
    using t [where x = 0 and j = 0 and xl = 0 and xh = 10 and vl = 2 and vh = 4
        and parseCSSColor = noColors and base = "Some 0"]
    by (simp add: baseOf_def)
  moreover have "applyStopFunc noColors (closureOf ?stops (Some 0) Linear) (Num 5) = Returns (Num 4)"
    using t [where x = 5 and j = 0 and xl = 0 and xh = 10 and vl = 2 and vh = 4
        and parseCSSColor = noColors and base = "Some 0" and a = 7 and c' = 7]
    by (simp add: baseOf_def)
  moreover have "applyStopFunc twoColors (closureOf ?cols None Color) (Num 5) = Returns (Rgba 128 0 128 1)"
    using stop_function_clamps_and_interpolates [OF lenc incc,
        where x = 5 and j = 0 and xl = 0 and xh = 10 and sl = "''red''" and sh = "''blue''"
          and rl = 255 and gl = 0 and bl = 0 and al = 1
          and rh = 0 and gh = 0 and bh = 255 and ah = 1 and t = "1 / 2"
          and parseCSSColor = twoColors and base = None]
    by (simp add: baseOf_def twoColors_def specFactor_def)
  ultimately show ?thesis by blast
qed

lemma stopsRejected_malformed:
  assumes "malformed stops" "\<not> nullFirst stops"
  shows "stopsRejected stops = Returns True"
proof (cases stops)
  case (Arr xs)
  show ?thesis
  proof (cases "length xs < 2")
    case True
    then show ?thesis using Arr
      by (simp add: stopsRejected_def truthy_def lengthOf_def lessThan2_def toNumber_def bindO_def)
  next
    case False
    then obtain s rest where xs: "xs = s # rest" by (cases xs) auto
    have "case s of Arr ys \<Rightarrow> length ys \<noteq> 2 | Num r \<Rightarrow> True | Bool b \<Rightarrow> True | Null \<Rightarrow> True | _ \<Rightarrow> False"
      using assms(1) Arr xs False by (simp add: malformed_def)
    moreover have "s \<noteq> Null" using assms(2) Arr xs False by (cases rest) (simp_all add: nullFirst_def)
    ultimately show ?thesis using Arr xs False
      by (cases s)
        (simp_all add: stopsRejected_def truthy_def lengthOf_def lessThan2_def toNumber_def bindO_def
          elemOf_def)
  qed
qed (use assms in \<open>simp_all add: malformed_def stopsRejected_def truthy_def\<close>)

lemma stopsRejected_nullFirst:
  assumes "nullFirst stops"
  shows "stopsRejected stops = Throws TypeError"
proof (cases stops)
  case (Arr xs)
  then obtain r rest where "xs = Null # r # rest"
    using assms by (cases xs; cases "tl xs") (auto simp: nullFirst_def)
  then show ?thesis using Arr
    by (simp add: stopsRejected_def truthy_def lengthOf_def lessThan2_def toNumber_def bindO_def elemOf_def)
qed (use assms in \<open>simp_all add: nullFirst_def\<close>)

lemma getStyleFunc_malformed:
  assumes "sp_type sp \<noteq> Some ''identity''" "malformed (sp_stops sp)"
  shows "getStyleFunc parseCSSColor sp g =
     (if nullFirst (sp_stops sp) then ([], Throws TypeError) else (errorLines sp, Returns None))"
proof (cases "nullFirst (sp_stops sp)")
  case True
  then show ?thesis using assms(1) stopsRejected_nullFirst[OF True]
    by (simp add: getStyleFunc_def bindS_def silent_def)
next
  case False
  then show ?thesis using assms(1) stopsRejected_malformed[OF assms(2) False]
    by (simp add: getStyleFunc_def bindS_def silent_def consoleLog_def returnS_def errorLines_def)
qed

lemma buildStyleFunc_malformed:
  assumes "sp_type sp \<noteq> Some ''identity''" "malformed (sp_stops sp)"
  shows "buildStyleFunc parseCSSColor (Object sp) d =
     (if nullFirst (sp_stops sp) then [] else errorLines sp, Throws TypeError)"
  using getStyleFunc_malformed[OF assms]
  by (simp add: buildStyleFunc_def bindS_def setType_def throwS_def split: option.split)

lemma collectFrom_throws:
  assumes "buildStyleFunc parseCSSColor (lookupStyle props key) d = (out, Throws e)"
  shows "collectFrom parseCSSColor props ((key, d) # pairs) getters = (out, Throws e)"
  using assms by (simp add: bindS_def)

lemma initPainter_background_malformed:
  assumes "l_type l = ''background''" "l_paint l = Some props"
    "lookupStyle props ''background-color'' = Object sp"
    "sp_type sp \<noteq> Some ''identity''" "malformed (sp_stops sp)"
  shows "initPainter parseCSSColor l = (if nullFirst (sp_stops sp) then [] else errorLines sp, Throws TypeError)"
proof -
  have "initBackgroundFill parseCSSColor l =
      (if nullFirst (sp_stops sp) then [] else errorLines sp, Throws TypeError)"
    unfolding initBackgroundFill_def collectGetters_def
    using assms(2,3) buildStyleFunc_malformed[OF assms(4,5), of parseCSSColor Undefined]
    by (simp add: bindS_def)
  then show ?thesis using assms(1) by (simp add: initPainter_def bindS_def)
qed

lemma addPainterFunctions_throws:
  assumes "initPainter parseCSSColor l = (out, Throws e)"
  shows "addPainterFunctions parseCSSColor (l # rest) = (out, Throws e)"
  using assms by (simp add: bindS_def)

lemma initPainter_unsupported:
  assumes "\<not> supported (l_type l)"
  shows "initPainter parseCSSColor l =
     ([LogText (''ERROR in initRenderer: layer.type = '' @ l_type l @ '' not supported!'')], Returns None)"
  using assms by (simp add: initPainter_def supported_def consoleLog_def returnS_def)

text \<open>
  Claim C6, which the code does not meet.  \<^verbatim>\<open>getStyleFunc\<close> logs the two lines and returns
  nothing for a specification whose stops are missing, fewer than two, or start with a
  stop that is not a pair; when the first stop is \<^verbatim>\<open>null\<close> it throws before it logs.  In both
  cases \<^verbatim>\<open>buildStyleFunc\<close> ends with a \<^verbatim>\<open>TypeError\<close> (in the first on \<^verbatim>\<open>styleFunc.type = ...\<close>), and
  so does the loop over the layers: the layer is not skipped, and neither it nor the
  layers after it get a painter.  A layer of a type that is not supported is skipped:
  \<^verbatim>\<open>initPainter\<close> logs and returns nothing, and the loop goes on with the next layer.
\<close>

theorem malformed_stops_abort_layer_setup:
  "(sp_type sp \<noteq> Some ''identity'' \<and> malformed (sp_stops sp) \<longrightarrow>
      getStyleFunc parseCSSColor sp g =
        (if nullFirst (sp_stops sp) then ([], Throws TypeError) else (errorLines sp, Returns None)) \<and>
      buildStyleFunc parseCSSColor (Object sp) d =
        (if nullFirst (sp_stops sp) then [] else errorLines sp, Throws TypeError)) \<and>
   (l_type l = ''background'' \<and> l_paint l = Some props \<and>
    lookupStyle props ''background-color'' = Object sp \<and>
    sp_type sp \<noteq> Some ''identity'' \<and> malformed (sp_stops sp) \<longrightarrow>
      addPainterFunctions parseCSSColor (l # rest) =
        (if nullFirst (sp_stops sp) then [] else errorLines sp, Throws TypeError)) \<and>
   (\<not> supported (l_type l) \<longrightarrow>
      addPainterFunctions parseCSSColor (l # rest) =
        consoleLog [LogText (''ERROR in initRenderer: layer.type = '' @ l_type l @ '' not supported!'')]
          (bindS (addPainterFunctions parseCSSColor rest) (\<lambda>painters. returnS ((l, None) # painters))))"
proof -
  have a: "sp_type sp \<noteq> Some ''identity'' \<and> malformed (sp_stops sp) \<longrightarrow>
      getStyleFunc parseCSSColor sp g =
        (if nullFirst (sp_stops sp) then ([], Throws TypeError) else (errorLines sp, Returns None)) \<and>
      buildStyleFunc parseCSSColor (Object sp) d =
        (if nullFirst (sp_stops sp) then [] else errorLines sp, Throws TypeError)"
    using getStyleFunc_malformed[of sp parseCSSColor g] buildStyleFunc_malformed[of sp parseCSSColor d]
    by blast
  have b: "l_type l = ''background'' \<and> l_paint l = Some props \<and>
    lookupStyle props ''background-color'' = Object sp \<and>
    sp_type sp \<noteq> Some ''identity'' \<and> malformed (sp_stops sp) \<longrightarrow>
      addPainterFunctions parseCSSColor (l # rest) =
        (if nullFirst (sp_stops sp) then [] else errorLines sp, Throws TypeError)"
    using initPainter_background_malformed[of l props sp parseCSSColor]
      addPainterFunctions_throws[of parseCSSColor l _ TypeError rest]
    by blast
  have c: "\<not> supported (l_type l) \<longrightarrow>
      addPainterFunctions parseCSSColor (l # rest) =
        consoleLog [LogText (''ERROR in initRenderer: layer.type = '' @ l_type l @ '' not supported!'')]
          (bindS (addPainterFunctions parseCSSColor rest) (\<lambda>painters. returnS ((l, None) # painters)))"
    using initPainter_unsupported[of l parseCSSColor]
    by (simp add: bindS_def consoleLog_def returnS_def split: outcome.split)
  from a b c show ?thesis by blast
qed

theorem malformed_stops_abort_layer_setup_witness:
  "addPainterFunctions noColors [badLayer, goodLayer] = (errorLines badColor, Throws TypeError) \<and>
   addPainterFunctions noColors [nullLayer, goodLayer] = ([], Throws TypeError) \<and>
   addPainterFunctions noColors [hillLayer, goodLayer] =
     ([LogText ''ERROR in initRenderer: layer.type = hillshade not supported!''],
      Returns [(hillLayer, None),
               (goodLayer, Some (BackgroundFill
                  [(''background-color'', Constant (Str ''blue'')),
                   (''background-opacity'', Constant Undefined)]))])"
proof -
  have good: "addPainterFunctions noColors [goodLayer] =
     ([], Returns [(goodLayer, Some (BackgroundFill
        [(''background-color'', Constant (Str ''blue'')), (''background-opacity'', Constant Undefined)]))])"
    by (simp add: goodLayer_def initPainter_def initBackgroundFill_def collectGetters_def
        buildStyleFunc_def lookupStyle_def bindS_def returnS_def)
  have 1: "addPainterFunctions noColors [badLayer, goodLayer] = (errorLines badColor, Throws TypeError)"
    using malformed_stops_abort_layer_setup [where l = badLayer and sp = badColor
        and props = "[(''background-color'', Object badColor)]" and parseCSSColor = noColors
        and rest = "[goodLayer]"]
    by (simp add: badLayer_def badColor_def lookupStyle_def malformed_def nullFirst_def)
  have 2: "addPainterFunctions noColors [nullLayer, goodLayer] = ([], Throws TypeError)"
    using malformed_stops_abort_layer_setup [where l = nullLayer and sp = nullColor
        and props = "[(''background-color'', Object nullColor)]" and parseCSSColor = noColors
        and rest = "[goodLayer]"]
    by (simp add: nullLayer_def nullColor_def lookupStyle_def malformed_def nullFirst_def)
  have 3: "addPainterFunctions noColors [hillLayer, goodLayer] =
     ([LogText ''ERROR in initRenderer: layer.type = hillshade not supported!''],
      Returns [(hillLayer, None),
               (goodLayer, Some (BackgroundFill
                  [(''background-color'', Constant (Str ''blue'')),
                   (''background-opacity'', Constant Undefined)]))])"
  proof -
    have ns: "\<not> supported (l_type hillLayer)" by (simp add: hillLayer_def supported_def)
    from malformed_stops_abort_layer_setup [where l = hillLayer and parseCSSColor = noColors
        and rest = "[goodLayer]"] ns
    have "addPainterFunctions noColors [hillLayer, goodLayer] =
        consoleLog [LogText (''ERROR in initRenderer: layer.type = '' @ l_type hillLayer @ '' not supported!'')]
          (bindS (addPainterFunctions noColors [goodLayer]) (\<lambda>painters. returnS ((hillLayer, None) # painters)))"
      by blast
    also have "\<dots> = ([LogText ''ERROR in initRenderer: layer.type = hillshade not supported!''],
      Returns [(hillLayer, None),
               (goodLayer, Some (BackgroundFill
                  [(''background-color'', Constant (Str ''blue'')),
                   (''background-opacity'', Constant Undefined)]))])"
      by (simp only: good) (simp add: consoleLog_def bindS_def returnS_def hillLayer_def)
    finally show ?thesis .
  qed
  from 1 2 3 show ?thesis by (intro conjI)
qed

section \<open>Cooperative chain scheduler\<close>

lemma runFunc_todo: "runFunc run f s = chain run (todo f) s"
  by (cases f) simp_all

lemma turns_0 [simp]: "turns 0 s = s"
  by (simp add: turns_def)

lemma turns_Suc: "turns (Suc k) s = turns k (handleMessage (runFunc exec) zeroEvent s)"
  by (simp add: turns_def funpow_swap1)

lemma turns_step: "turns (k + 1) s = handleMessage (runFunc exec) zeroEvent (turns k s)"
  by (simp add: turns_def)

lemma turns_add: "turns (a + b) s = turns b (turns a s)"
  by (induction a arbitrary: s) (simp_all add: turns_Suc)

lemma chain_frame:
  "\<exists>new ev. timeouts (chain exec fs s) = timeouts s @ new \<and> executed (chain exec fs s) = executed s @ ev \<and>
     turn (chain exec fs s) = turn s"
proof (cases fs)
  case Nil
  then show ?thesis by simp
next
  case (Cons f rest)
  then show ?thesis by (cases f) (simp_all add: setZeroTimeout_def exec_def resume_def)
qed

lemma handleMessage_frame:
  assumes "timeouts s = e # q"
  shows "\<exists>new ev. timeouts (handleMessage (runFunc exec) zeroEvent s) = q @ new \<and>
     executed (handleMessage (runFunc exec) zeroEvent s) = executed s @ ev \<and>
     turn (handleMessage (runFunc exec) zeroEvent s) = turn s + 1"
proof (cases "rank e")
  case None
  then show ?thesis using assms by (simp add: handleMessage_def zeroEvent_def Let_def)
next
  case (Some r)
  from chain_frame[of "todo (func e)" "s\<lparr>turn := turn s + 1, timeouts := q\<rparr>"]
  show ?thesis using assms Some by (simp add: handleMessage_def zeroEvent_def Let_def runFunc_todo)
qed

lemma handleMessage_empty:
  "timeouts s = [] \<Longrightarrow> handleMessage (runFunc exec) zeroEvent s = s\<lparr>turn := turn s + 1\<rparr>"
  by (simp add: handleMessage_def zeroEvent_def Let_def)

lemma handleMessage_mono:
  "\<exists>ev. executed (handleMessage (runFunc exec) zeroEvent s) = executed s @ ev"
proof (cases "timeouts s")
  case Nil
  then show ?thesis by (simp add: handleMessage_empty)
next
  case (Cons e q)
  from handleMessage_frame[OF this] show ?thesis by blast
qed

lemma turns_mono: "\<exists>ev. executed (turns k s) = executed s @ ev"
proof (induction k arbitrary: s)
  case 0
  then show ?case by simp
next
  case (Suc k)
  from handleMessage_mono[of s] obtain ev1 where
    1: "executed (handleMessage (runFunc exec) zeroEvent s) = executed s @ ev1" by blast
  from Suc[of "handleMessage (runFunc exec) zeroEvent s"] obtain ev2 where
    "executed (turns k (handleMessage (runFunc exec) zeroEvent s)) = executed (handleMessage (runFunc exec) zeroEvent s) @ ev2"
    by blast
  with 1 show ?case by (simp add: turns_Suc)
qed

lemma advance:
  "timeouts s = pre @ e # post \<Longrightarrow>
   \<exists>post'. timeouts (turns (length pre) s) = e # post' \<and> turn (turns (length pre) s) = turn s + length pre"
proof (induction pre arbitrary: s post)
  case Nil
  then show ?case by simp
next
  case (Cons p pre)
  then have "timeouts s = p # (pre @ e # post)" by simp
  from handleMessage_frame[OF this] obtain new where
    1: "timeouts (handleMessage (runFunc exec) zeroEvent s) = pre @ e # (post @ new)"
       "turn (handleMessage (runFunc exec) zeroEvent s) = turn s + 1" by auto
  from Cons.IH[OF 1(1)] 1(2) show ?case by (simp add: turns_Suc)
qed

lemma run_head_step:
  assumes "timeouts s = e # q" "rank e \<noteq> None" "todo (func e) = SyncStep a tid # rest"
  shows "handleMessage (runFunc exec) zeroEvent s =
     s\<lparr>turn := turn s + 1,
       timeouts := q @ [\<lparr>task_id = tid, func = ChainShift rest, rank = Some 0\<rparr>],
       zeroMessages := zeroMessages s + 1,
       executed := executed s @ [(turn s + 1, a)]\<rparr>"
  using assms by (simp add: handleMessage_def zeroEvent_def Let_def runFunc_todo setZeroTimeout_def exec_def resume_def)

lemma run_head_final:
  assumes "timeouts s = e # q" "rank e \<noteq> None" "todo (func e) = FinalCallback a # rest"
  shows "handleMessage (runFunc exec) zeroEvent s =
     s\<lparr>turn := turn s + 1, timeouts := q, executed := executed s @ [(turn s + 1, a)]\<rparr>"
  using assms by (simp add: handleMessage_def zeroEvent_def Let_def runFunc_todo exec_def)

lemma chain_runs_in_order:
  "timeouts s = pre @ e # post \<Longrightarrow> rank e \<noteq> None \<Longrightarrow> todo (func e) = syncChain steps final tid \<Longrightarrow>
   \<exists>K ts. length ts = length steps + 1 \<and> sorted_wrt (<) ts \<and> (\<forall>t \<in> set ts. turn s < t) \<and>
     set (zip ts (steps @ [final])) \<subseteq> set (executed (turns K s))"
proof (induction steps arbitrary: s pre e post)
  case Nil
  let ?n = "length pre"
  from advance[OF Nil.prems(1)] obtain post' where
    a: "timeouts (turns ?n s) = e # post'" "turn (turns ?n s) = turn s + ?n" by blast
  have t: "todo (func e) = FinalCallback final # []" using Nil.prems(3) by (simp add: syncChain_def)
  have "executed (turns (?n + 1) s) = executed (turns ?n s) @ [(turn s + ?n + 1, final)]"
    using run_head_final[OF a(1) Nil.prems(2) t] a(2) by (simp only: turns_step) simp
  then have "set (zip [turn s + ?n + 1] ([] @ [final])) \<subseteq> set (executed (turns (?n + 1) s))"
    by simp
  then show ?case
    by (intro exI[of _ "?n + 1"] exI[of _ "[turn s + ?n + 1]"]) simp
next
  case (Cons a steps)
  let ?n = "length pre"
  from advance[OF Cons.prems(1)] obtain post' where
    a: "timeouts (turns ?n s) = e # post'" "turn (turns ?n s) = turn s + ?n" by blast
  let ?rest = "syncChain steps final tid"
  let ?e' = "\<lparr>task_id = tid, func = ChainShift ?rest, rank = Some 0\<rparr>"
  define s1 where "s1 = turns (?n + 1) s"
  have t: "todo (func e) = SyncStep a tid # ?rest" using Cons.prems(3) by (simp add: syncChain_def)
  have s1: "s1 = (turns ?n s)\<lparr>turn := turn s + ?n + 1, timeouts := post' @ [?e'],
       zeroMessages := zeroMessages (turns ?n s) + 1,
       executed := executed (turns ?n s) @ [(turn s + ?n + 1, a)]\<rparr>"
    unfolding s1_def using run_head_step[OF a(1) Cons.prems(2) t] a(2) by (simp only: turns_step)
  have q1: "timeouts s1 = post' @ ?e' # []" and t1: "turn s1 = turn s + ?n + 1"
    and x1: "(turn s + ?n + 1, a) \<in> set (executed s1)"
    by (simp_all add: s1)
  have "rank ?e' \<noteq> None" "todo (func ?e') = syncChain steps final tid" by simp_all
  from Cons.IH[OF q1 this] obtain K ts where
    ih: "length ts = length steps + 1" "sorted_wrt (<) ts" "\<forall>t \<in> set ts. turn s1 < t"
      "set (zip ts (steps @ [final])) \<subseteq> set (executed (turns K s1))" by blast
  from turns_mono[of K s1] x1 have x: "(turn s + ?n + 1, a) \<in> set (executed (turns K s1))" by auto
  let ?ts = "(turn s + ?n + 1) # ts"
  have "length ?ts = length (a # steps) + 1" using ih(1) by simp
  moreover have "sorted_wrt (<) ?ts" using ih(2,3) t1 by auto
  moreover have "\<forall>t \<in> set ?ts. turn s < t" using ih(3) t1 by auto
  moreover have "set (zip ?ts ((a # steps) @ [final])) \<subseteq> set (executed (turns (?n + 1 + K) s))"
    using ih(4) x turns_add[of "?n + 1" K s] by (simp add: s1_def)
  ultimately show ?case by blast
qed

lemma chain_alone:
  "timeouts s = [e] \<Longrightarrow> rank e \<noteq> None \<Longrightarrow> todo (func e) = syncChain steps final tid \<Longrightarrow>
   k \<le> length steps + 1 \<Longrightarrow>
   executed (turns k s) = executed s @ zip [turn s + 1 ..< turn s + 1 + k] (take k (steps @ [final])) \<and>
   (k = length steps + 1 \<longrightarrow> timeouts (turns k s) = [])"
proof (induction steps arbitrary: s e k)
  case Nil
  show ?case
  proof (cases k)
    case 0
    then show ?thesis by simp
  next
    case (Suc k')
    then have k: "k = 1" using Nil.prems(4) by simp
    have t: "todo (func e) = FinalCallback final # []" using Nil.prems(3) by (simp add: syncChain_def)
    show ?thesis using run_head_final[OF Nil.prems(1) Nil.prems(2) t] k
      by (simp add: turns_Suc del: One_nat_def) (simp add: turns_Suc)
  qed
next
  case (Cons a steps)
  show ?case
  proof (cases k)
    case 0
    then show ?thesis by simp
  next
    case (Suc k')
    let ?rest = "syncChain steps final tid"
    let ?e' = "\<lparr>task_id = tid, func = ChainShift ?rest, rank = Some 0\<rparr>"
    let ?s1 = "handleMessage (runFunc exec) zeroEvent s"
    have t: "todo (func e) = SyncStep a tid # ?rest" using Cons.prems(3) by (simp add: syncChain_def)
    have s1: "?s1 = s\<lparr>turn := turn s + 1, timeouts := [] @ [?e'],
       zeroMessages := zeroMessages s + 1, executed := executed s @ [(turn s + 1, a)]\<rparr>"
      using run_head_step[OF Cons.prems(1) Cons.prems(2) t] .
    have q1: "timeouts ?s1 = [?e']" and t1: "turn ?s1 = turn s + 1"
      and x1: "executed ?s1 = executed s @ [(turn s + 1, a)]"
      by (simp_all add: s1)
    have k': "k' \<le> length steps + 1" using Suc Cons.prems(4) by simp
    have "rank ?e' \<noteq> None" "todo (func ?e') = syncChain steps final tid" by simp_all
    from Cons.IH[OF q1 this k'] have
      ih: "executed (turns k' ?s1) = executed ?s1 @ zip [turn ?s1 + 1 ..< turn ?s1 + 1 + k'] (take k' (steps @ [final]))"
        "k' = length steps + 1 \<longrightarrow> timeouts (turns k' ?s1) = []" by blast+
    have u: "[turn s + 1 ..< turn s + 1 + Suc k'] = (turn s + 1) # [turn s + 2 ..< turn s + 2 + k']"
      by (simp add: upt_conv_Cons)
    show ?thesis using ih x1 t1 Suc u by (simp add: turns_Suc)
  qed
qed


lemma two_cases: "i < (2::nat) \<Longrightarrow> i = 0 \<or> i = 1"
  by auto

lemma compare_AB:
  assumes "i < (2::nat)" "j < (2::nat)"
  shows "compareRank (ranked rankOnlyA (queueAB f g) ! i) (ranked rankOnlyA (queueAB f g) ! j) = - 1"
  using two_cases[OF assms(1)] two_cases[OF assms(2)]
  by (auto simp: ranked_def queueAB_def rankOnlyA_def compareRank_def rankGreater_def)

lemma compare_BA:
  assumes "i < (2::nat)" "j < (2::nat)"
  shows "compareRank (ranked rankOnlyA (queueBA f g) ! i) (ranked rankOnlyA (queueBA f g) ! j) = - 1"
  using two_cases[OF assms(1)] two_cases[OF assms(2)]
  by (auto simp: ranked_def queueBA_def rankOnlyA_def compareRank_def rankGreater_def)

lemma arraySort_blind:
  assumes len: "length xs = 2"
    and cmp: "\<And>i j. i < 2 \<Longrightarrow> j < 2 \<Longrightarrow> c (xs ! i) (xs ! j) = - 1"
  shows "arraySort srt c xs = map (\<lambda>i. xs ! i) (filter (\<lambda>i. i < 2) (srt blind 2))"
proof -
  have "(\<lambda>i j. if i < length xs \<and> j < length xs then c (xs ! i) (xs ! j) else 0) = blind"
    using cmp by (auto simp: fun_eq_iff blind_def len)
  then show ?thesis by (simp add: arraySort_def Let_def len)
qed

lemma sorted_AB:
  "timeouts (sortTasks srt rankOnlyA ((initChainer :: ('f, unit) chainer)\<lparr>timeouts := queueAB f g\<rparr>)) =
     map (\<lambda>i. ranked rankOnlyA (queueAB f g) ! i) (filter (\<lambda>i. i < 2) (srt blind 2))"
proof -
  have "length (ranked rankOnlyA (queueAB f g)) = 2" by (simp add: ranked_def queueAB_def)
  from arraySort_blind[of "ranked rankOnlyA (queueAB f g)" compareRank srt, OF this compare_AB]
  show ?thesis
    by (simp add: sortTasks_def ranked_def)
qed

lemma sorted_BA:
  "timeouts (sortTasks srt rankOnlyA ((initChainer :: ('f, unit) chainer)\<lparr>timeouts := queueBA f g\<rparr>)) =
     map (\<lambda>i. ranked rankOnlyA (queueBA f g) ! i) (filter (\<lambda>i. i < 2) (srt blind 2))"
proof -
  have "length (ranked rankOnlyA (queueBA f g)) = 2" by (simp add: ranked_def queueBA_def)
  from arraySort_blind[of "ranked rankOnlyA (queueBA f g)" compareRank srt, OF this compare_BA]
  show ?thesis
    by (simp add: sortTasks_def ranked_def)
qed

text \<open>
  Claim C8, which the code does not meet.  The claim, and the comment in \<^verbatim>\<open>sortTasks\<close>, say
  that the sorted queue has its entries in ascending rank with the entries of undefined
  rank first.  The comparator answers \<open>- 1\<close> whenever a rank is undefined, in whichever
  order the two entries are passed, so it does not tell \<^verbatim>\<open>[A, B]\<close> from \<^verbatim>\<open>[B, A]\<close> when
  only \<^verbatim>\<open>A\<close> has a rank: every comparison sort applies the same permutation to both, and
  leaves the entry of undefined rank last in one of them.
\<close>

theorem sortTasks_undefined_rank_not_first:
  "\<not> (sortedByRank srt rankOnlyA (queueAB f g) \<and> sortedByRank srt rankOnlyA (queueBA f g))"
proof
  assume both: "sortedByRank srt rankOnlyA (queueAB f g) \<and> sortedByRank srt rankOnlyA (queueBA f g)"
  define p where "p = filter (\<lambda>i. i < 2) (srt blind 2)"
  have ab: "mset (map (\<lambda>i. ranked rankOnlyA (queueAB f g) ! i) p) = mset (ranked rankOnlyA (queueAB f g))"
      "rankOrdered (map (\<lambda>i. ranked rankOnlyA (queueAB f g) ! i) p)"
    and ba: "rankOrdered (map (\<lambda>i. ranked rankOnlyA (queueBA f g) ! i) p)"
    using both by (simp_all add: sortedByRank_def sorted_AB sorted_BA p_def Let_def)
  have "size (mset (map (\<lambda>i. ranked rankOnlyA (queueAB f g) ! i) p)) = size (mset (ranked rankOnlyA (queueAB f g)))"
    using ab(1) by simp
  then have "length p = 2" by (simp add: ranked_def queueAB_def)
  then obtain i j where p: "p = [i, j]"
    by (metis (no_types) length_0_conv length_Suc_conv numeral_2_eq_2)
  have "\<forall>x \<in> set p. x < 2" by (simp add: p_def)
  then have "i < 2" "j < 2" using p by simp_all
  then have "i = 0 \<or> i = 1" "j = 0 \<or> j = 1" by auto
  then show False using ab ba p
    by (auto simp: ranked_def queueAB_def queueBA_def rankOnlyA_def rankOrdered_def rankLe_def)
qed


lemma one_step_per_turn:
  "\<exists>ev. executed (handleMessage (runFunc exec) zeroEvent s) = executed s @ ev \<and> length ev \<le> 1 \<and>
     (\<forall>x \<in> set ev. fst x = turn s + 1)"
proof (cases "timeouts s")
  case Nil
  then show ?thesis by (simp add: handleMessage_empty)
next
  case (Cons e q)
  show ?thesis
  proof (cases "rank e")
    case None
    then show ?thesis using Cons by (simp add: handleMessage_def zeroEvent_def Let_def)
  next
    case (Some r)
    show ?thesis
    proof (cases "todo (func e)")
      case Nil
      then show ?thesis using Cons Some
        by (simp add: handleMessage_def zeroEvent_def Let_def runFunc_todo)
    next
      case (Cons c rest)
      then show ?thesis using \<open>timeouts s = e # q\<close> Some
        by (cases c) (simp_all add: handleMessage_def zeroEvent_def Let_def runFunc_todo
            setZeroTimeout_def exec_def resume_def)
    qed
  qed
qed

text \<open>
  Between calls of \<^verbatim>\<open>sortTasks\<close>.  After \<^verbatim>\<open>chainSyncList(steps, final, taskId)\<close>, whatever the
  queue holds already, there are turns \<open>t\<^sub>1 < \<dots> < t\<^sub>n < t\<^sub>n\<^sub>+\<^sub>1\<close>, all later than the call, on
  which \<open>s\<^sub>1, \<dots>, s\<^sub>n\<close> and the final callback have run, in this order; a turn runs at most
  one function of the caller.  When the queue is empty at the call, the first \<open>k\<close> turns
  run exactly the first \<open>k\<close> of \<open>s\<^sub>1, \<dots>, s\<^sub>n, final\<close>, one on each turn, and after \<open>n + 1\<close>
  turns the queue is empty again.  \<^verbatim>\<open>setZeroTimeout\<close> appends at the back with rank 0, and a
  turn removes the front entry and runs it.
\<close>

lemma chain_runs_between_sorts:
  "(\<exists>K ts. length ts = length steps + 1 \<and> sorted_wrt (<) ts \<and> (\<forall>t \<in> set ts. turn s < t) \<and>
      set (zip ts (steps @ [final])) \<subseteq> set (executed (turns K (chainSyncList steps final tid s)))) \<and>
   (\<exists>ev. executed (handleMessage (runFunc exec) zeroEvent s) = executed s @ ev \<and> length ev \<le> 1 \<and>
      (\<forall>x \<in> set ev. fst x = turn s + 1)) \<and>
   (timeouts s = [] \<longrightarrow>
      (\<forall>k \<le> length steps + 1.
         executed (turns k (chainSyncList steps final tid s)) =
           executed s @ zip [turn s + 1 ..< turn s + 1 + k] (take k (steps @ [final]))) \<and>
      timeouts (turns (length steps + 1) (chainSyncList steps final tid s)) = []) \<and>
   timeouts (setZeroTimeout f i s) = timeouts s @ [\<lparr>task_id = i, func = f, rank = Some 0\<rparr>] \<and>
   (timeouts s = e # q \<and> rank e \<noteq> None \<longrightarrow>
      handleMessage run zeroEvent s = run (func e) (s\<lparr>turn := turn s + 1, timeouts := q\<rparr>))"
proof -
  let ?e = "\<lparr>task_id = tid, func = CallInOrder (map (\<lambda>f. SyncStep f tid) steps) final, rank = Some 0\<rparr>"
  let ?s0 = "chainSyncList steps final tid s"
  have q0: "timeouts ?s0 = timeouts s @ ?e # []" and t0: "turn ?s0 = turn s"
    and x0: "executed ?s0 = executed s"
    by (simp_all add: chainSyncList_def setZeroTimeout_def)
  have r: "rank ?e \<noteq> None" and t: "todo (func ?e) = syncChain steps final tid"
    by (simp_all add: syncChain_def)
  have A: "\<exists>K ts. length ts = length steps + 1 \<and> sorted_wrt (<) ts \<and> (\<forall>t \<in> set ts. turn s < t) \<and>
      set (zip ts (steps @ [final])) \<subseteq> set (executed (turns K ?s0))"
    using chain_runs_in_order[OF q0 r t] t0 by simp
  have B: "timeouts s = [] \<longrightarrow>
      (\<forall>k \<le> length steps + 1.
         executed (turns k ?s0) = executed s @ zip [turn s + 1 ..< turn s + 1 + k] (take k (steps @ [final]))) \<and>
      timeouts (turns (length steps + 1) ?s0) = []"
  proof (intro impI conjI allI)
    assume "timeouts s = []"
    then show "timeouts (turns (length steps + 1) ?s0) = []"
      using chain_alone[OF _ r t le_refl, of ?s0, THEN conjunct2] q0 by simp
  next
    fix k
    assume "timeouts s = []" and k: "k \<le> length steps + 1"
    then have q: "timeouts ?s0 = [?e]" using q0 by simp
    from chain_alone[OF q r t k, THEN conjunct1]
    show "executed (turns k ?s0) = executed s @ zip [turn s + 1 ..< turn s + 1 + k] (take k (steps @ [final]))"
      using t0 x0 by simp
  qed
  have C: "timeouts (setZeroTimeout f i s) = timeouts s @ [\<lparr>task_id = i, func = f, rank = Some 0\<rparr>]"
    by (simp add: setZeroTimeout_def)
  have D: "timeouts s = e # q \<and> rank e \<noteq> None \<longrightarrow>
      handleMessage run zeroEvent s = run (func e) (s\<lparr>turn := turn s + 1, timeouts := q\<rparr>)"
    by (auto simp: handleMessage_def zeroEvent_def Let_def)
  show ?thesis using A one_step_per_turn[of s] B C D by blast
qed

lemma insertionSort_AB:
  "map task_id (timeouts (sortTasks insertionSort rankOnlyA ((initChainer :: (nat, unit) chainer)\<lparr>timeouts := queueAB 0 1\<rparr>)))
    = [''A'', ''B'']"
  by (simp add: sortTasks_def arraySort_def insertionSort_def queueAB_def rankOnlyA_def
      compareRank_def rankGreater_def)

theorem sortTasks_undefined_rank_not_first_witness:
  "\<not> sortedByRank insertionSort rankOnlyA (queueAB (0::nat) 1)"
  using sortTasks_undefined_rank_not_first [of insertionSort "0::nat" 1] insertionSort_AB
  by (simp add: sortedByRank_def sortTasks_def arraySort_def insertionSort_def queueAB_def queueBA_def rankOnlyA_def
      compareRank_def rankGreater_def rankOrdered_def rankLe_def ranked_def)

lemma runLength_descending:
  assumes "\<forall>i \<in> set (previous # rest). \<forall>j \<in> set (previous # rest). cmp i j < 0"
  shows "runLength cmp True previous rest = length rest"
  using assms
proof (induction rest arbitrary: previous)
  case Nil
  then show ?case by simp
next
  case (Cons current rest)
  have "cmp current previous < 0" using Cons.prems by simp
  moreover have "runLength cmp True current rest = length rest"
    using Cons.prems by (intro Cons.IH) simp
  ultimately show ?case by (simp add: Let_def)
qed

lemma countAndMakeRun_descending:
  assumes "2 \<le> n" "\<forall>i < n. \<forall>j < n. cmp i j < 0"
  shows "countAndMakeRun cmp [0 ..< n] = (rev [0 ..< n], n)"
proof -
  have u: "[0 ..< n] = 0 # 1 # [2 ..< n]"
    using assms(1) by (simp add: upt_conv_Cons numeral_2_eq_2)
  have "\<forall>i \<in> set (1 # [2 ..< n]). \<forall>j \<in> set (1 # [2 ..< n]). cmp i j < 0"
    using assms by auto
  then have r: "runLength cmp True 1 [2 ..< n] = n - 2"
    using runLength_descending[of 1 "[2 ..< n]" cmp] by simp
  have d: "cmp 1 0 < 0" using assms by simp
  have "countAndMakeRun cmp (0 # 1 # [2 ..< n]) =
      (rev (take n (0 # 1 # [2 ..< n])) @ drop n (0 # 1 # [2 ..< n]), n)"
    using d r assms(1) by (simp add: countAndMakeRun_def Let_def)
  then show ?thesis by (simp only: u[symmetric]) simp
qed

lemma v8Sort_descending:
  assumes "2 \<le> n" "\<forall>i < n. \<forall>j < n. cmp i j < 0"
  shows "v8Sort cmp n = rev [0 ..< n]"
  using assms(1) countAndMakeRun_descending[OF assms]
  by (simp add: v8Sort_def binaryInsertionSort_def)

lemma arraySort_v8_reverses:
  assumes "2 \<le> length xs" "\<forall>x \<in> set xs. \<forall>y \<in> set xs. cmp x y < 0"
  shows "arraySort v8Sort cmp xs = rev xs"
proof -
  let ?n = "length xs"
  let ?c = "\<lambda>i j. if i < ?n \<and> j < ?n then cmp (xs ! i) (xs ! j) else 0"
  have "\<forall>i < ?n. \<forall>j < ?n. ?c i j < 0" using assms(2) by simp
  from v8Sort_descending[OF assms(1) this]
  have "arraySort v8Sort cmp xs = map (\<lambda>i. xs ! i) (filter (\<lambda>i. i < ?n) (rev [0 ..< ?n]))"
    by (simp add: arraySort_def Let_def)
  also have "filter (\<lambda>i. i < ?n) (rev [0 ..< ?n]) = rev [0 ..< ?n]"
    by (simp add: filter_id_conv)
  also have "map (\<lambda>i. xs ! i) (rev [0 ..< ?n]) = rev (map (\<lambda>i. xs ! i) [0 ..< ?n])"
    by (simp add: rev_map)
  also have "map (\<lambda>i. xs ! i) [0 ..< ?n] = xs" by (rule map_nth)
  finally show ?thesis .
qed

lemma compareRank_equal:
  assumes "rank a = Some r" "rank b = Some r"
  shows "compareRank a b < 0"
  using assms by (simp add: compareRank_def rankGreater_def)

text \<open>
  Claim C5, which the code does not meet.  Entries are pushed at the back of the queue
  with rank 0 and taken from its front, so that they run in the order they were queued
  as long as \<^verbatim>\<open>sortTasks\<close> is not called.  \<^verbatim>\<open>sortTasks\<close> compares with
  \<^verbatim>\<open>(a, b) => (a.rank > b.rank) ? 1 : -1\<close>, which answers \<open>- 1\<close> for two entries of equal rank
  in whichever order they are passed.  V8 takes a queue whose entries all have the same
  rank for a descending run and reverses it: the entry queued last runs first.
\<close>

theorem sortTasks_reverses_equal_rank:
  assumes "timeouts s = q" and "2 \<le> length q" and "length q < 64" and "equalRank ranking q r"
  shows "timeouts (sortTasks v8Sort ranking s) = rev (ranked ranking q) \<and>
    map task_id (timeouts (sortTasks v8Sort ranking s)) = rev (map task_id q) \<and>
    handleMessage run zeroEvent (sortTasks v8Sort ranking s) =
      run (func (last q)) (s\<lparr>turn := turn s + 1, timeouts := rev (ranked ranking (butlast q))\<rparr>)"
proof -
  have len: "2 \<le> length (ranked ranking q)" using assms(2) by (simp add: ranked_def)
  have "\<forall>x \<in> set (ranked ranking q). rank x = Some r"
    using assms(4) by (auto simp: equalRank_def ranked_def list_all_iff)
  then have "\<forall>x \<in> set (ranked ranking q). \<forall>y \<in> set (ranked ranking q). compareRank x y < 0"
    using compareRank_equal by blast
  from arraySort_v8_reverses[OF len this]
  have A: "timeouts (sortTasks v8Sort ranking s) = rev (ranked ranking q)"
    using assms(1) by (simp add: sortTasks_def ranked_def)
  have B: "map task_id (timeouts (sortTasks v8Sort ranking s)) = rev (map task_id q)"
    by (simp add: A ranked_def rev_map comp_def)
  have ne: "q \<noteq> []" using assms(2) by auto
  then have q: "q = butlast q @ [last q]" by simp
  have "ranked ranking (butlast q @ [last q]) =
      ranked ranking (butlast q) @ [(last q)\<lparr>rank := ranking (task_id (last q))\<rparr>]"
    by (simp add: ranked_def)
  then have R: "rev (ranked ranking q) =
      (last q)\<lparr>rank := ranking (task_id (last q))\<rparr> # rev (ranked ranking (butlast q))"
    using q by (metis rev_eq_Cons_iff rev_rev_ident)
  have "ranking (task_id (last q)) = Some r"
    using assms(4) ne by (simp add: equalRank_def list_all_iff)
  then have C: "handleMessage run zeroEvent (sortTasks v8Sort ranking s) =
      run (func (last q)) (s\<lparr>turn := turn s + 1, timeouts := rev (ranked ranking (butlast q))\<rparr>)"
    using A R by (simp add: handleMessage_def zeroEvent_def Let_def sortTasks_def)
  from A B C show ?thesis by (intro conjI)
qed

theorem sortTasks_reverses_equal_rank_witness:
  "map task_id (timeouts twoChains) = [''A'', ''B''] \<and>
   map task_id (timeouts (sortTasks v8Sort (\<lambda>i. Some 1) twoChains)) = [''B'', ''A''] \<and>
   executed (turns 2 twoChains) = [(1, 1), (2, 3)] \<and>
   executed (turns 2 (sortTasks v8Sort (\<lambda>i. Some 1) twoChains)) = [(1, 3), (2, 1)]"
proof -
  have q: "timeouts twoChains =
      [\<lparr>task_id = ''A'', func = CallInOrder [SyncStep 1 ''A''] 2, rank = Some 0\<rparr>,
       \<lparr>task_id = ''B'', func = CallInOrder [SyncStep 3 ''B''] 4, rank = Some 0\<rparr>]"
    by (simp add: twoChains_def chainSyncList_def setZeroTimeout_def initChainer_def)
  have 1: "map task_id (timeouts twoChains) = [''A'', ''B'']" by (simp add: q)
  have 2: "map task_id (timeouts (sortTasks v8Sort (\<lambda>i. Some 1) twoChains)) = [''B'', ''A'']"
    using sortTasks_reverses_equal_rank [OF q, where ranking = "\<lambda>i. Some 1" and r = 1]
    by (simp add: equalRank_def ranked_def)
  have 3: "executed (turns 2 twoChains) = [(1, 1), (2, 3)]" by code_simp
  have 4: "executed (turns 2 (sortTasks v8Sort (\<lambda>i. Some 1) twoChains)) = [(1, 3), (2, 1)]"
    by code_simp
  from 1 2 3 4 show ?thesis by (intro conjI)
qed

section \<open>Label placement\<close>

lemma collides_iff: "collides bs b \<longleftrightarrow> (\<exists>x \<in> set bs. \<exists>t. b = Some t \<and> intersects x t)"
  by (cases b) (auto simp: collides_def list_ex_iff)

lemma drawLabel_accept:
  "drawLabel tm im f p = (if accepts tm im (boxes p) f then accept tm im f p else p)"
  by (auto simp: drawLabel_def accepts_def accept_def collides_iff pushBox_def Let_def
      split: option.splits)

lemma labeler_append:
  "labeler (Some g) tm im (fs @ fs') p = labeler (Some g) tm im fs' (labeler (Some g) tm im fs p)"
  by (simp add: labeler_def)

lemma labeler_single: "labeler (Some g) tm im [f] p = drawLabel tm im f p"
  by (simp add: labeler_def)

lemma drawLabel_grows:
  "\<exists>bs ds. boxes (drawLabel tm im f p) = boxes p @ bs \<and> drawn (drawLabel tm im f p) = drawn p @ ds"
  by (simp add: drawLabel_accept accept_def)

lemma labeler_grows:
  "\<exists>bs ds. boxes (labeler g tm im fs p) = boxes p @ bs \<and> drawn (labeler g tm im fs p) = drawn p @ ds"
proof (cases g)
  case None
  then show ?thesis by (simp add: labeler_def)
next
  case (Some getters)
  have "\<exists>bs ds. boxes (foldl (\<lambda>p f. drawLabel tm im f p) p fs) = boxes p @ bs \<and>
      drawn (foldl (\<lambda>p f. drawLabel tm im f p) p fs) = drawn p @ ds"
  proof (induction fs arbitrary: p)
    case Nil
    then show ?case by simp
  next
    case (Cons f fs)
    from drawLabel_grows[of tm im f p] obtain bs1 ds1 where
      1: "boxes (drawLabel tm im f p) = boxes p @ bs1" "drawn (drawLabel tm im f p) = drawn p @ ds1"
      by blast
    from Cons[of "drawLabel tm im f p"] obtain bs2 ds2 where
      "boxes (foldl (\<lambda>p f. drawLabel tm im f p) (drawLabel tm im f p) fs) = boxes (drawLabel tm im f p) @ bs2"
      "drawn (foldl (\<lambda>p f. drawLabel tm im f p) (drawLabel tm im f p) fs) = drawn (drawLabel tm im f p) @ ds2"
      by blast
    with 1 show ?case by simp
  qed
  then show ?thesis using Some by (simp add: labeler_def)
qed

text \<open>
  Claim C9, as amended.  For a symbol layer whose placement is not \<^verbatim>\<open>line\<close>, the features are
  visited in the order of the list, and a feature is accepted if and only if neither its
  text box nor its icon box intersects a box that is in the list when the feature is
  visited.  A feature that is not accepted leaves the pass as it is: nothing is drawn
  for it and no box is added.  For an accepted feature the icon and the text are drawn,
  and its text box and its icon box are appended to the list.  No labeler, of this layer
  or of another, removes a box or a call from the pass it is given, so accepted boxes
  stay in the list for the later features and the later symbol layers.  A layer with
  \<^verbatim>\<open>symbol-placement: line\<close> draws nothing.
\<close>

theorem labeler_greedy_collision_filter:
  "labeler (Some g) tm im (pre @ f # post) p =
     labeler (Some g) tm im post
       (if accepts tm im (boxes (labeler (Some g) tm im pre p)) f
        then accept tm im f (labeler (Some g) tm im pre p)
        else labeler (Some g) tm im pre p) \<and>
   (\<exists>bs ds. boxes (labeler g' tm' im' fs p) = boxes p @ bs \<and> drawn (labeler g' tm' im' fs p) = drawn p @ ds) \<and>
   labeler None tm im fs p = p"
proof -
  have "labeler (Some g) tm im (pre @ f # post) p =
      labeler (Some g) tm im post (drawLabel tm im f (labeler (Some g) tm im pre p))"
    using labeler_append[of g tm im pre "f # post" p] labeler_append[of g tm im "[f]" post]
    by (simp add: labeler_single)
  then show ?thesis
    using labeler_grows[of g' tm' im' fs p] by (simp add: drawLabel_accept) (simp add: labeler_def)
qed


theorem labeler_greedy_collision_filter_witness:
  "labeler (Some (([], []), [])) overlapText noIcon [1, 2] emptyPass =
     \<lparr>boxes = [((0, 0), (2, 1))], drawn = [IconDraw 1 None, TextDraw 1 (Some ((0, 0), (2, 1)))]\<rparr>"
  using labeler_greedy_collision_filter [of "(([], []), [])" overlapText noIcon "[1]" 2 "[]" emptyPass
      None overlapText noIcon "[]"]
  by (simp add: labeler_def drawLabel_def accepts_def accept_def overlapText_def noIcon_def emptyPass_def
      collides_def intersects_def pushBox_def)

text \<open>
  The claim as stated fails for a symbol layer with \<^verbatim>\<open>symbol-placement: line\<close>: its feature
  intersects nothing and is not drawn.
\<close>

theorem labeler_line_placement_counterexample:
  "initPainter noColors lineLayer = ([], Returns (Some (Labeler None))) \<and>
   accepts overlapText noIcon (boxes (emptyPass :: nat pass)) 1 \<and>
   drawn (labeler None overlapText noIcon [1] emptyPass) = []"
  by (simp add: labeler_def accepts_def emptyPass_def initPainter_def initLabelerSetup_def lineLayer_def
      lookupStyle_def bindS_def returnS_def)

section \<open>Tile factory\<close>

lemma loadTile_frame:
  "numToDo (loadTile u srcs k t) = numToDo t \<and> tileLoaded (loadTile u srcs k t) = tileLoaded t \<and>
   tileCalls (loadTile u srcs k t) = tileCalls t"
  by (simp add: loadTile_def tileLoaded_def Let_def split: option.splits list.splits)

lemma loadTiles_frame:
  "numToDo (foldl (\<lambda>t k. loadTile u srcs k t) t ks) = numToDo t \<and>
   tileLoaded (foldl (\<lambda>t k. loadTile u srcs k t) t ks) = tileLoaded t \<and>
   tileCalls (foldl (\<lambda>t k. loadTile u srcs k t) t ks) = tileCalls t"
  by (induction ks arbitrary: t) (simp_all add: loadTile_frame)

lemma orderTile_start:
  assumes "t = orderTile u srcs w i"
  shows "numToDo t = int (length (tileSourceKeys srcs)) \<and> \<not> tileLoaded t \<and> tileCalls t = []"
  unfolding assms by (simp add: orderTile_def loadTiles_frame) (simp add: tileLoaded_def)

lemma checkData_counts:
  "numToDo (checkData e k d t) = numToDo t - 1"
  by (simp add: checkData_def Let_def split: option.splits)

lemma checkData_pending:
  "numToDo t > 1 \<Longrightarrow> tileLoaded (checkData e k d t) = tileLoaded t \<and> tileCalls (checkData e k d t) = tileCalls t"
  by (simp add: checkData_def tileLoaded_def Let_def split: option.splits)

lemma checkData_last:
  "numToDo t = 1 \<Longrightarrow> tileLoaded (checkData e k d t) \<and> tileCalls (checkData e k d t) = tileCalls t @ [None]"
  by (simp add: checkData_def tileLoaded_def Let_def split: option.splits)

lemma reported_snoc: "reported (rs @ [r]) t = checkData (fst r) (fst (snd r)) (snd (snd r)) (reported rs t)"
  by (simp add: reported_def)

lemma reported_progress:
  "int (length rs) < numToDo t \<Longrightarrow>
   numToDo (reported rs t) = numToDo t - int (length rs) \<and> tileLoaded (reported rs t) = tileLoaded t \<and>
   tileCalls (reported rs t) = tileCalls t"
proof (induction rs rule: rev_induct)
  case Nil
  then show ?case by (simp add: reported_def)
next
  case (snoc r rs)
  then have ih: "numToDo (reported rs t) = numToDo t - int (length rs)" "tileLoaded (reported rs t) = tileLoaded t"
      "tileCalls (reported rs t) = tileCalls t" by simp_all
  have "numToDo (reported rs t) > 1" using ih(1) snoc.prems by simp
  from checkData_pending[OF this] checkData_counts[of "fst r" "fst (snd r)" "snd (snd r)" "reported rs t"] ih
  show ?case by (simp add: reported_snoc)
qed

lemma reported_complete:
  assumes "int (length rs) = numToDo t" "rs \<noteq> []"
  shows "tileLoaded (reported rs t) \<and> tileCalls (reported rs t) = tileCalls t @ [None]"
proof -
  obtain rs' r where rs: "rs = rs' @ [r]" using assms(2) by (cases rs rule: rev_cases) auto
  have "int (length rs') < numToDo t" using assms(1) rs by simp
  from reported_progress[OF this] have "numToDo (reported rs' t) = 1"
      "tileCalls (reported rs' t) = tileCalls t"
    using assms(1) rs by simp_all
  with checkData_last[of "reported rs' t"] show ?thesis using rs by (simp add: reported_snoc)
qed

text \<open>
  Claim C3, as amended.  For a tile with \<open>n \<ge> 1\<close> tile sources and any \<open>n\<close> completion
  reports, with or without errors: after \<open>j < n\<close> reports the tile is not loaded and its
  callback has not been called; after the \<open>n\<close>-th report the tile is loaded and the
  callback has been called once, with a \<^verbatim>\<open>null\<close> error.
\<close>

theorem tile_loaded_after_all_sources_report:
  assumes "t = orderTile tileURL sources ldr ident"
    and "tileSourceKeys sources \<noteq> []"
    and "length rs = length (tileSourceKeys sources)"
  shows "\<forall>j \<le> length rs.
     tileLoaded (reported (take j rs) t) = (j = length rs) \<and>
     tileCalls (reported (take j rs) t) = (if j = length rs then [None] else [])"
proof (intro allI impI)
  fix j
  assume j: "j \<le> length rs"
  have s: "numToDo t = int (length rs)" "\<not> tileLoaded t" "tileCalls t = []"
    using orderTile_start[OF assms(1)] assms(3) by simp_all
  show "tileLoaded (reported (take j rs) t) = (j = length rs) \<and>
     tileCalls (reported (take j rs) t) = (if j = length rs then [None] else [])"
  proof (cases "j = length rs")
    case True
    have "rs \<noteq> []" using assms by auto
    moreover have "int (length rs) = numToDo t" using s by simp
    ultimately show ?thesis using reported_complete[of rs t] s True by simp
  next
    case False
    then have "int (length (take j rs)) < numToDo t" using j s by simp
    from reported_progress[OF this] show ?thesis using s False by simp
  qed
qed

theorem tile_loaded_after_all_sources_report_witness:
  "\<not> tileLoaded (reported (take 1 twoReports) twoSourceTile) \<and>
   tileCalls (reported (take 1 twoReports) twoSourceTile) = [] \<and>
   tileLoaded (reported twoReports twoSourceTile) \<and>
   tileCalls (reported twoReports twoSourceTile) = [None]"
proof -
  have ne: "tileSourceKeys twoSources \<noteq> []"
    by (simp add: tileSourceKeys_def twoSources_def vectorSource_def rasterSource_def)
  have len: "length twoReports = length (tileSourceKeys twoSources)"
    by (simp add: tileSourceKeys_def twoSources_def vectorSource_def rasterSource_def twoReports_def)
  note t = tile_loaded_after_all_sources_report [OF twoSourceTile_def ne len]
  have two: "length twoReports = 2" by (simp add: twoReports_def)
  have "tileLoaded (reported (take 1 twoReports) twoSourceTile) = (1 = length twoReports) \<and>
     tileCalls (reported (take 1 twoReports) twoSourceTile) = (if 1 = length twoReports then [None] else [])"
    using t two by (metis one_le_numeral)
  moreover have "tileLoaded (reported (take 2 twoReports) twoSourceTile) = (2 = length twoReports) \<and>
     tileCalls (reported (take 2 twoReports) twoSourceTile) = (if 2 = length twoReports then [None] else [])"
    using t two by (metis order_refl)
  ultimately show ?thesis using two by simp
qed

text \<open>
  The claim as stated fails for \<open>n = 0\<close>: a tile ordered when no source has tiles is not
  loaded, its callback is not called, and no load is started that could report later.
\<close>

theorem tile_without_sources_counterexample:
  "tileSourceKeys [] = [] \<and>
   \<not> tileLoaded noSourceTile \<and>
   tileCalls noSourceTile = [] \<and>
   outbox (loader noSourceTile) = [] \<and>
   imageLoads noSourceTile = []"
  by (simp add: noSourceTile_def orderTile_def tileSourceKeys_def initWorker_def tileLoaded_def)

section \<open>Renderer\<close>

lemma drawAll_guard:
  "canceled (the_tile s) \<or> \<not> loaded (the_tile s) \<or> rendering (the_tile s) \<or> rendered (the_tile s)
   \<Longrightarrow> drawAll c rt s = s"
  by (auto simp: drawAll_def)

lemma drawAll_sets_rendering:
  "\<not> (canceled (the_tile s) \<or> \<not> loaded (the_tile s) \<or> rendering (the_tile s) \<or> rendered (the_tile s))
   \<Longrightarrow> rendering (the_tile (drawAll c rt s)) \<and> tile_ops (the_tile (drawAll c rt s)) = tile_ops (the_tile s) \<and>
       laminae (the_tile (drawAll c rt s)) = laminae (the_tile s) \<and>
       activeDrawCalls (drawAll c rt s) = activeDrawCalls s + 1 \<and>
       callbacks (drawAll c rt s) = callbacks s"
  by (simp add: drawAll_def chainAsyncList_def setZeroTimeout_def Let_def)

lemma drawAll_idem: "drawAll c' rt' (drawAll c rt s) = drawAll c rt s"
proof (cases "canceled (the_tile s) \<or> \<not> loaded (the_tile s) \<or> rendering (the_tile s) \<or> rendered (the_tile s)")
  case True
  then show ?thesis by (simp add: drawAll_guard)
next
  case False
  from drawAll_sets_rendering[OF this, of c rt] show ?thesis by (simp add: drawAll_guard)
qed

lemma putTogether_rendered:
  "rendered (the_tile (putTogether c rt s)) \<and> \<not> rendering (the_tile (putTogether c rt s)) \<and>
   activeDrawCalls (putTogether c rt s) = activeDrawCalls s - 1"
  by (simp add: putTogether_def composite_def invokeCallback_def Let_def)

lemma drawGroup_rendered:
  "laminaRendered s (g_name g) \<Longrightarrow> drawGroup g (Callback c) s = s\<lparr>callbacks := callbacks s @ [(c, Finished)]\<rparr>"
  by (simp add: drawGroup_def invokeKont_def invokeCallback_def)

subsection \<open>A draw through the scheduler\<close>

lemma drawTurns_0 [simp]: "drawTurns painter 0 s = s"
  by (simp add: drawTurns_def)

lemma drawTurns_Suc: "drawTurns painter (Suc n) s = drawTurns painter n (handleMessage (runFunc (runCall painter)) zeroEvent s)"
  by (simp add: drawTurns_def funpow_swap1)

lemma drawTurns_add: "drawTurns painter (a + b) s = drawTurns painter b (drawTurns painter a s)"
  by (induction a arbitrary: s) (simp_all add: drawTurns_Suc)

lemma paint_step_frame:
  "runCall painter (PainterCall l name bb) None (s\<lparr>turn := t, timeouts := q, zeroMessages := z\<rparr>)
     = (runCall painter (PainterCall l name bb) None s)\<lparr>turn := t, timeouts := q, zeroMessages := z\<rparr>"
  by (simp add: runCall_def drawOnLamina_def severalGroups_def Let_def)

lemma paint_step_fields:
  "timeouts (runCall painter (PainterCall l name bb) None s) = timeouts s \<and>
   turn (runCall painter (PainterCall l name bb) None s) = turn s \<and>
   zeroMessages (runCall painter (PainterCall l name bb) None s) = zeroMessages s"
  by (simp add: runCall_def drawOnLamina_def Let_def)

lemma turn_on_painter:
  assumes "timeouts s = [e]" "rank e \<noteq> None"
    "todo (func e) = SyncStep (PainterCall l name bb) tid # rest"
  shows "handleMessage (runFunc (runCall painter)) zeroEvent s =
     (runCall painter (PainterCall l name bb) None s)
       \<lparr>turn := turn s + 1,
        timeouts := [\<lparr>task_id = tid, func = ChainShift rest, rank = Some 0\<rparr>],
        zeroMessages := zeroMessages s + 1\<rparr>"
  using assms paint_step_frame[where painter = painter and l = l and name = name and bb = bb and s = s
      and t = "turn s + 1" and q = "[]" and z = "zeroMessages s"]
    paint_step_fields[of painter l name bb s]
  by (simp add: handleMessage_def zeroEvent_def Let_def runFunc_todo setZeroTimeout_def)

lemma paintLayers_Cons:
  "paintLayers painter name bb (l # ls) s =
     paintLayers painter name bb ls (runCall painter (PainterCall l name bb) None s)"
  by (simp add: paintLayers_def)

lemma paintLayers_frame:
  "paintLayers painter name bb ls (s\<lparr>turn := t, timeouts := q, zeroMessages := z\<rparr>)
     = (paintLayers painter name bb ls s)\<lparr>turn := t, timeouts := q, zeroMessages := z\<rparr>"
proof (induction ls arbitrary: s)
  case Nil
  then show ?case by (simp add: paintLayers_def)
next
  case (Cons l ls)
  show ?case by (simp only: paintLayers_Cons paint_step_frame Cons)
qed

lemma paintLayers_fields:
  "timeouts (paintLayers painter name bb ls s) = timeouts s \<and>
   turn (paintLayers painter name bb ls s) = turn s \<and>
   zeroMessages (paintLayers painter name bb ls s) = zeroMessages s"
proof (induction ls arbitrary: s)
  case Nil
  then show ?case by (simp add: paintLayers_def)
next
  case (Cons l ls)
  show ?case using Cons[of "runCall painter (PainterCall l name bb) None s"]
      paint_step_fields[of painter l name bb s]
    by (simp add: paintLayers_Cons)
qed

lemma turn_on_returnResult:
  assumes "timeouts s = [e]" "rank e \<noteq> None" "todo (func e) = [FinalCallback (ReturnResult name k)]"
  shows "handleMessage (runFunc (runCall painter)) zeroEvent s =
     invokeKont k (setLaminaRendered name (s\<lparr>turn := turn s + 1, timeouts := []\<rparr>))"
  using assms by (simp add: handleMessage_def zeroEvent_def Let_def runFunc_todo runCall_def)

lemma painters_run:
  "timeouts s = [e] \<Longrightarrow> rank e \<noteq> None \<Longrightarrow> todo (func e) = painterChain name bb tid layers k \<Longrightarrow>
   drawTurns painter (length layers + 1) s =
     invokeKont k (setLaminaRendered name
       ((paintLayers painter name bb layers s)
          \<lparr>turn := turn s + length layers + 1, timeouts := [],
           zeroMessages := zeroMessages s + length layers\<rparr>))"
proof (induction layers arbitrary: s e)
  case Nil
  have t: "todo (func e) = [FinalCallback (ReturnResult name k)]"
    using Nil.prems(3) by (simp add: painterChain_def)
  have "drawTurns painter 1 s = handleMessage (runFunc (runCall painter)) zeroEvent s"
    by (simp add: drawTurns_def)
  then show ?case using turn_on_returnResult[OF Nil.prems(1,2) t, of painter]
    by (simp add: paintLayers_def)
next
  case (Cons l ls)
  let ?e' = "\<lparr>task_id = tid, func = ChainShift (painterChain name bb tid ls k), rank = Some 0\<rparr>"
  define s1 where "s1 = handleMessage (runFunc (runCall painter)) zeroEvent s"
  have t: "todo (func e) = SyncStep (PainterCall l name bb) tid # painterChain name bb tid ls k"
    using Cons.prems(3) by (simp add: painterChain_def)
  have s1: "s1 = (runCall painter (PainterCall l name bb) None s)
       \<lparr>turn := turn s + 1, timeouts := [?e'], zeroMessages := zeroMessages s + 1\<rparr>"
    unfolding s1_def by (rule turn_on_painter[OF Cons.prems(1,2) t])
  have q1: "timeouts s1 = [?e']" and t1: "turn s1 = turn s + 1" and z1: "zeroMessages s1 = zeroMessages s + 1"
    by (simp_all add: s1)
  have r: "rank ?e' \<noteq> None" and td: "todo (func ?e') = painterChain name bb tid ls k" by simp_all
  have p: "paintLayers painter name bb ls s1 =
      (paintLayers painter name bb (l # ls) s)\<lparr>turn := turn s + 1, timeouts := [?e'], zeroMessages := zeroMessages s + 1\<rparr>"
    by (simp only: s1 paintLayers_frame paintLayers_Cons)
  have "drawTurns painter (length (l # ls) + 1) s = drawTurns painter (length ls + 1) s1"
    by (simp add: drawTurns_Suc s1_def)
  also have "\<dots> = invokeKont k (setLaminaRendered name
       ((paintLayers painter name bb ls s1)
          \<lparr>turn := turn s1 + length ls + 1, timeouts := [],
           zeroMessages := zeroMessages s1 + length ls\<rparr>))"
    by (rule Cons.IH[OF q1 r td])
  finally show ?case by (simp add: p t1 z1)
qed

lemma book_fields [simp]:
  "turn (book t q z s) = t" "timeouts (book t q z s) = q" "zeroMessages (book t q z s) = z"
  "the_tile (book t q z s) = the_tile s" "styleGroups (book t q z s) = styleGroups s"
  "nextBoxes (book t q z s) = nextBoxes s" "activeDrawCalls (book t q z s) = activeDrawCalls s"
  "callbacks (book t q z s) = callbacks s" "boundingBoxes (book t q z s) = boundingBoxes s"
  by (simp_all add: book_def)

lemma book_book [simp]: "book t q z (book t' q' z' s) = book t q z s"
  by (simp add: book_def)

lemma book_self: "book (turn s) (timeouts s) (zeroMessages s) s = s"
  by (simp add: book_def)

lemma book_paintLayers:
  "paintLayers painter name bb ls (book t q z s) = book t q z (paintLayers painter name bb ls s)"
  by (simp add: book_def paintLayers_frame)

lemma book_drawOnLamina: "drawOnLamina name ops (book t q z s) = book t q z (drawOnLamina name ops s)"
  by (simp add: book_def drawOnLamina_def severalGroups_def)

lemma book_freshBoxes: "freshBoxes (book t q z s) = book t q z (freshBoxes s)"
  by (simp add: book_def freshBoxes_def)

lemma book_setLaminaRendered: "setLaminaRendered name (book t q z s) = book t q z (setLaminaRendered name s)"
  by (simp add: book_def setLaminaRendered_def severalGroups_def)

lemma book_progress: "progress c rt name (book t q z s) = book t q z (progress c rt name s)"
  by (simp add: book_def progress_def invokeCallback_def)

lemma book_putTogether: "putTogether c rt (book t q z s) = book t q z (putTogether c rt s)"
  by (simp add: book_def putTogether_def composite_def invokeCallback_def severalGroups_def Let_def)

lemma book_setZeroTimeout:
  "setZeroTimeout f i (book t q z s) = book t (q @ [\<lparr>task_id = i, func = f, rank = Some 0\<rparr>]) (z + 1) s"
  by (simp add: book_def setZeroTimeout_def)

lemma renderGroup_alt:
  "renderGroup painter c rt s g =
     progress c rt (g_name g) (setLaminaRendered (g_name g)
       (paintLayers painter (g_name g) (nextBoxes s) (g_layers g)
          (freshBoxes (drawOnLamina (g_name g) [ClearRect] s))))"
  by (simp add: renderGroup_def freshBoxes_def Let_def drawOnLamina_def)

lemma book_renderGroup: "renderGroup painter c rt (book t q z s) g = book t q z (renderGroup painter c rt s g)"
  by (simp add: renderGroup_alt book_drawOnLamina book_freshBoxes book_paintLayers
      book_setLaminaRendered book_progress)

lemma book_renderGroups:
  "foldl (renderGroup painter c rt) (book t q z s) gs = book t q z (foldl (renderGroup painter c rt) s gs)"
  by (induction gs arbitrary: s) (simp_all add: book_renderGroup)

lemma painters_run_book:
  assumes "timeouts s = [e]" "rank e \<noteq> None" "todo (func e) = painterChain name bb tid layers k"
  shows "drawTurns painter (length layers + 1) s =
     invokeKont k (setLaminaRendered name
       (book (turn s + length layers + 1) [] (zeroMessages s + length layers)
          (paintLayers painter name bb layers s)))"
  using painters_run[OF assms, of painter] by (simp add: book_def)

lemma invokeKont_checkCb:
  "invokeKont (CheckCb cb tid name c rt) (book t q z s) =
     book t (q @ [\<lparr>task_id = tid, func = cb, rank = Some 0\<rparr>]) (z + 1) (progress c rt name s)"
  by (simp add: invokeKont_def progress_def book_def setZeroTimeout_def invokeCallback_def)

lemma drawGroup_fresh:
  assumes "\<not> laminaRendered s (g_name g)"
  shows "drawGroup g k (book t q z s) =
     book t (q @ [\<lparr>task_id = tile_id (the_tile s),
                    func = CallInOrder (map (\<lambda>layer. SyncStep (PainterCall layer (g_name g) (nextBoxes s)) (tile_id (the_tile s))) (g_layers g))
                             (ReturnResult (g_name g) k),
                    rank = Some 0\<rparr>]) (z + 1)
       (freshBoxes (drawOnLamina (g_name g) [ClearRect] s))"
proof -
  have "laminaRendered (book t q z s) (g_name g) = laminaRendered s (g_name g)"
    by (simp add: laminaRendered_def severalGroups_def)
  with assms have "\<not> laminaRendered (book t q z s) (g_name g)"
    by simp
  then show ?thesis
    by (simp add: drawGroup_def Let_def chainSyncList_def setZeroTimeout_def book_def freshBoxes_def
        drawOnLamina_def severalGroups_def)
qed

lemma turn_on_group:
  assumes "timeouts s = [e]" "rank e \<noteq> None"
    "todo (func e) = AsyncStep (MakeDrawCall g c rt) tid # rest"
  shows "handleMessage (runFunc (runCall painter)) zeroEvent s =
     drawGroup g (CheckCb (ChainShift rest) tid (g_name g) c rt) (book (turn s + 1) [] (zeroMessages s) s)"
  using assms by (simp add: handleMessage_def zeroEvent_def Let_def runFunc_todo runCall_def book_def)

lemma group_run:
  assumes q: "timeouts s = [e]" and r: "rank e \<noteq> None"
    and f: "todo (func e) = AsyncStep (MakeDrawCall g c rt) tid # rest"
    and fresh: "\<not> laminaRendered s (g_name g)"
  shows "drawTurns painter (length (g_layers g) + 2) s =
     book (turn s + (length (g_layers g) + 2)) [\<lparr>task_id = tid, func = ChainShift rest, rank = Some 0\<rparr>]
       (zeroMessages s + (length (g_layers g) + 2)) (renderGroup painter c rt s g)"
proof -
  define n where "n = length (g_layers g)"
  define k where "k = CheckCb (ChainShift rest) tid (g_name g) c rt"
  define tl where "tl = tile_id (the_tile s)"
  define e1 where "e1 = \<lparr>task_id = tl,
       func = CallInOrder (map (\<lambda>layer. SyncStep (PainterCall layer (g_name g) (nextBoxes s)) tl) (g_layers g))
                (ReturnResult (g_name g) k), rank = Some 0\<rparr>"
  define p where "p = freshBoxes (drawOnLamina (g_name g) [ClearRect] s)"
  define s1 where "s1 = book (turn s + 1) [e1] (zeroMessages s + 1) p"
  have one: "drawTurns painter 1 s = s1"
    using turn_on_group[OF q r f, of painter] drawGroup_fresh[OF fresh, of k "turn s + 1" "[]" "zeroMessages s"]
    by (simp add: drawTurns_def k_def s1_def e1_def tl_def p_def)
  have q1: "timeouts s1 = [e1]" by (simp add: s1_def)
  have r1: "rank e1 \<noteq> None" by (simp add: e1_def)
  have f1: "todo (func e1) = painterChain (g_name g) (nextBoxes s) tl (g_layers g) k"
    by (simp add: e1_def painterChain_def)
  have rest: "drawTurns painter (n + 1) s1 =
     invokeKont k (setLaminaRendered (g_name g)
       (book (turn s1 + n + 1) [] (zeroMessages s1 + n)
          (paintLayers painter (g_name g) (nextBoxes s) (g_layers g) s1)))"
    unfolding n_def by (rule painters_run_book[OF q1 r1 f1])
  have "drawTurns painter (n + 2) s = drawTurns painter (n + 1) (drawTurns painter 1 s)"
    using drawTurns_add[of painter 1 "n + 1" s] by (simp add: add.commute)
  also have "\<dots> = drawTurns painter (n + 1) s1" by (simp only: one)
  also have "\<dots> = invokeKont k (setLaminaRendered (g_name g)
       (book (turn s1 + n + 1) [] (zeroMessages s1 + n)
          (paintLayers painter (g_name g) (nextBoxes s) (g_layers g) s1)))"
    by (rule rest)
  also have "\<dots> = book (turn s + (n + 2)) [\<lparr>task_id = tid, func = ChainShift rest, rank = Some 0\<rparr>]
       (zeroMessages s + (n + 2)) (renderGroup painter c rt s g)"
    by (simp add: s1_def k_def book_paintLayers book_setLaminaRendered invokeKont_checkCb
        renderGroup_alt p_def)
  finally show ?thesis by (simp only: n_def)
qed

lemma drawTurnCount_groupTurns: "drawTurnCount gs = groupTurns gs + 1"
  by (simp add: drawTurnCount_def groupTurns_def)

lemma turn_on_putTogether:
  assumes "timeouts s = [e]" "rank e \<noteq> None" "todo (func e) = [FinalCallback (PutTogether c rt)]"
  shows "handleMessage (runFunc (runCall painter)) zeroEvent s =
     book (turn s + 1) [] (zeroMessages s) (putTogether c rt s)"
proof -
  have "handleMessage (runFunc (runCall painter)) zeroEvent s =
      putTogether c rt (book (turn s + 1) [] (zeroMessages s) s)"
    using assms by (simp add: handleMessage_def zeroEvent_def Let_def runFunc_todo runCall_def book_def)
  then show ?thesis by (simp only: book_putTogether)
qed

lemma paint_step_status:
  "styleGroups (runCall painter (PainterCall l name bb) None s) = styleGroups s \<and>
   lam_rendered (laminae (the_tile (runCall painter (PainterCall l name bb) None s)) nm)
     = lam_rendered (laminae (the_tile s) nm) \<and>
   rendered (the_tile (runCall painter (PainterCall l name bb) None s)) = rendered (the_tile s)"
  by (simp add: runCall_def drawOnLamina_def Let_def)

lemma paintLayers_status:
  "styleGroups (paintLayers painter name bb ls s) = styleGroups s \<and>
   lam_rendered (laminae (the_tile (paintLayers painter name bb ls s)) nm)
     = lam_rendered (laminae (the_tile s) nm) \<and>
   rendered (the_tile (paintLayers painter name bb ls s)) = rendered (the_tile s)"
proof (induction ls arbitrary: s)
  case Nil
  then show ?case by (simp add: paintLayers_def)
next
  case (Cons l ls)
  show ?case using Cons[of "runCall painter (PainterCall l name bb) None s"]
      paint_step_status[of painter l name bb s nm]
    by (simp add: paintLayers_Cons)
qed

lemma renderGroup_styleGroups: "styleGroups (renderGroup painter c rt s g) = styleGroups s"
  using paintLayers_status[of painter "g_name g" "nextBoxes s" "g_layers g"
      "freshBoxes (drawOnLamina (g_name g) [ClearRect] s)"]
  by (simp add: renderGroup_alt progress_def invokeCallback_def setLaminaRendered_def
      severalGroups_def freshBoxes_def drawOnLamina_def)

lemma renderGroup_other:
  assumes "severalGroups s" "nm \<noteq> g_name g"
  shows "laminaRendered (renderGroup painter c rt s g) nm = laminaRendered s nm"
proof -
  define p where "p = freshBoxes (drawOnLamina (g_name g) [ClearRect] s)"
  define x where "x = paintLayers painter (g_name g) (nextBoxes s) (g_layers g) p"
  have sp: "styleGroups p = styleGroups s"
    by (simp add: p_def freshBoxes_def drawOnLamina_def)
  have lp: "lam_rendered (laminae (the_tile p) nm) = lam_rendered (laminae (the_tile s) nm)"
    using assms by (simp add: p_def freshBoxes_def drawOnLamina_def)
  from paintLayers_status[of painter "g_name g" "nextBoxes s" "g_layers g" p nm]
  have sx: "styleGroups x = styleGroups s"
    and lx: "lam_rendered (laminae (the_tile x) nm) = lam_rendered (laminae (the_tile s) nm)"
    by (simp_all add: x_def sp lp)
  have sev: "severalGroups x" using assms(1) by (simp add: severalGroups_def sx)
  have "renderGroup painter c rt s g = progress c rt (g_name g) (setLaminaRendered (g_name g) x)"
    by (simp add: renderGroup_alt x_def p_def)
  then show ?thesis using assms sev lx
    by (simp add: laminaRendered_def severalGroups_def progress_def invokeCallback_def
        setLaminaRendered_def sx)
qed

lemma groups_run:
  "timeouts s = [e] \<Longrightarrow> rank e \<noteq> None \<Longrightarrow> todo (func e) = groupChain c rt tid gs \<Longrightarrow>
   (\<forall>g \<in> set gs. \<not> laminaRendered s (g_name g)) \<Longrightarrow> distinct (map g_name gs) \<Longrightarrow>
   severalGroups s \<or> length gs \<le> 1 \<Longrightarrow>
   drawTurns painter (groupTurns gs + 1) s =
     book (turn s + (groupTurns gs + 1)) [] (zeroMessages s + groupTurns gs)
       (putTogether c rt (foldl (renderGroup painter c rt) s gs))"
proof (induction gs arbitrary: s e)
  case Nil
  have t: "todo (func e) = [FinalCallback (PutTogether c rt)]"
    using Nil.prems(3) by (simp add: groupChain_def)
  have "drawTurns painter 1 s = handleMessage (runFunc (runCall painter)) zeroEvent s"
    by (simp add: drawTurns_def)
  then show ?case using turn_on_putTogether[OF Nil.prems(1,2) t, of painter]
    by (simp add: groupTurns_def)
next
  case (Cons g gs)
  define n where "n = length (g_layers g) + 2"
  define e' where "e' = \<lparr>task_id = tid, func = ChainShift (groupChain c rt tid gs), rank = Some 0\<rparr>"
  define x where "x = renderGroup painter c rt s g"
  define s' where "s' = book (turn s + n) [e'] (zeroMessages s + n) x"
  have t: "todo (func e) = AsyncStep (MakeDrawCall g c rt) tid # groupChain c rt tid gs"
    using Cons.prems(3) by (simp add: groupChain_def)
  have fresh: "\<not> laminaRendered s (g_name g)" using Cons.prems(4) by simp
  have first: "drawTurns painter n s = s'"
    unfolding n_def s'_def e'_def x_def by (rule group_run[OF Cons.prems(1,2) t fresh])
  have q': "timeouts s' = [e']" by (simp add: s'_def)
  have r': "rank e' \<noteq> None" by (simp add: e'_def)
  have t': "todo (func e') = groupChain c rt tid gs" by (simp add: e'_def)
  have sg: "styleGroups s' = styleGroups s"
    by (simp add: s'_def x_def renderGroup_styleGroups)
  have lr: "laminaRendered s' nm = laminaRendered x nm" for nm
    by (simp add: s'_def laminaRendered_def severalGroups_def)
  have pend: "\<forall>g' \<in> set gs. \<not> laminaRendered s' (g_name g')"
  proof
    fix g' assume g': "g' \<in> set gs"
    then have "gs \<noteq> []" by auto
    with Cons.prems(6) have sev: "severalGroups s" by auto
    from Cons.prems(5) have "g_name g \<notin> g_name ` set gs" by simp
    with g' have ne: "g_name g' \<noteq> g_name g" by (metis imageI)
    from g' Cons.prems(4) have "\<not> laminaRendered s (g_name g')" by simp
    then show "\<not> laminaRendered s' (g_name g')"
      by (simp add: lr x_def renderGroup_other[OF sev ne])
  qed
  have d': "distinct (map g_name gs)" using Cons.prems(5) by simp
  have m': "severalGroups s' \<or> length gs \<le> 1"
    using Cons.prems(6) by (auto simp add: severalGroups_def sg)
  have ih: "drawTurns painter (groupTurns gs + 1) s' =
     book (turn s' + (groupTurns gs + 1)) [] (zeroMessages s' + groupTurns gs)
       (putTogether c rt (foldl (renderGroup painter c rt) s' gs))"
    by (rule Cons.IH[OF q' r' t' pend d' m'])
  have gt: "groupTurns (g # gs) + 1 = n + (groupTurns gs + 1)"
    by (simp add: groupTurns_def n_def)
  have "drawTurns painter (groupTurns (g # gs) + 1) s
      = drawTurns painter (groupTurns gs + 1) (drawTurns painter n s)"
    by (simp only: gt drawTurns_add)
  also have "\<dots> = drawTurns painter (groupTurns gs + 1) s'" by (simp only: first)
  also have "\<dots> = book (turn s' + (groupTurns gs + 1)) [] (zeroMessages s' + groupTurns gs)
       (putTogether c rt (foldl (renderGroup painter c rt) s' gs))"
    by (rule ih)
  also have "\<dots> = book (turn s + (groupTurns (g # gs) + 1)) [] (zeroMessages s + groupTurns (g # gs))
       (putTogether c rt (foldl (renderGroup painter c rt) s (g # gs)))"
    by (simp add: s'_def x_def book_renderGroups book_putTogether groupTurns_def n_def add.assoc)
  finally show ?case .
qed

lemma book_startDraw: "startDraw (book t q z s) = book t q z (startDraw s)"
  by (simp add: book_def startDraw_def)

lemma book_renderNow: "renderNow painter c rt (book t q z s) = book t q z (renderNow painter c rt s)"
  by (simp add: renderNow_def book_startDraw book_renderGroups book_putTogether)

lemma renderNow_idle:
  assumes "timeouts s = []"
  shows "timeouts (renderNow painter c rt s) = []"
proof -
  have "renderNow painter c rt s = renderNow painter c rt (book (turn s) [] (zeroMessages s) s)"
    using assms book_self[of s] by simp
  then have "renderNow painter c rt s = book (turn s) [] (zeroMessages s) (renderNow painter c rt s)"
    by (simp only: book_renderNow)
  then have "timeouts (renderNow painter c rt s)
      = timeouts (book (turn s) [] (zeroMessages s) (renderNow painter c rt s))"
    by simp
  then show ?thesis by (simp only: book_fields)
qed

lemma drawAll_starts:
  assumes "timeouts s = []" "\<not> canceled (the_tile s)" "loaded (the_tile s)"
    "\<not> rendering (the_tile s)" "\<not> rendered (the_tile s)"
  shows "drawAll c rt s =
     book (turn s)
       [\<lparr>task_id = tile_id (the_tile s),
         func = CallInOrder (map (\<lambda>g. AsyncStep (MakeDrawCall g c rt) (tile_id (the_tile s)))
                               (filter g_visible (styleGroups s))) (PutTogether c rt),
         rank = Some 0\<rparr>]
       (zeroMessages s + 1) (startDraw s)"
  using assms
  by (simp add: drawAll_def Let_def chainAsyncList_def setZeroTimeout_def book_def startDraw_def comp_def)

lemma full_draw:
  assumes idle: "timeouts s = []"
    and ready: "\<not> canceled (the_tile s)" "loaded (the_tile s)"
      "\<not> rendering (the_tile s)" "\<not> rendered (the_tile s)"
    and fresh: "\<forall>g \<in> set (filter g_visible (styleGroups s)). \<not> laminaRendered s (g_name g)"
    and names: "distinct (map g_name (styleGroups s))"
  shows "drawTurns painter (drawTurnCount (filter g_visible (styleGroups s))) (drawAll c rt s) =
     (renderNow painter c rt s)
       \<lparr>turn := turn s + drawTurnCount (filter g_visible (styleGroups s)),
        zeroMessages := zeroMessages s + drawTurnCount (filter g_visible (styleGroups s))\<rparr>"
proof -
  define gs where "gs = filter g_visible (styleGroups s)"
  define tid where "tid = tile_id (the_tile s)"
  define e where "e = \<lparr>task_id = tid,
      func = CallInOrder (map (\<lambda>g. AsyncStep (MakeDrawCall g c rt) tid) gs) (PutTogether c rt),
      rank = Some (0::int)\<rparr>"
  define s0 where "s0 = book (turn s) [e] (zeroMessages s + 1) (startDraw s)"
  have start: "drawAll c rt s = s0"
    unfolding s0_def e_def gs_def tid_def by (rule drawAll_starts[OF idle ready])
  have q: "timeouts s0 = [e]" by (simp add: s0_def)
  have r: "rank e \<noteq> None" by (simp add: e_def)
  have t: "todo (func e) = groupChain c rt tid gs" by (simp add: e_def groupChain_def)
  have sg: "styleGroups s0 = styleGroups s" by (simp add: s0_def startDraw_def)
  have lr: "laminaRendered s0 nm = laminaRendered s nm" for nm
    using ready by (simp add: s0_def laminaRendered_def severalGroups_def startDraw_def)
  have pend: "\<forall>g \<in> set gs. \<not> laminaRendered s0 (g_name g)"
    using fresh by (simp add: lr gs_def)
  have d: "distinct (map g_name gs)"
    using names unfolding gs_def by (rule distinct_map_filter)
  have "length gs \<le> length (styleGroups s)" by (simp add: gs_def)
  then have m: "severalGroups s0 \<or> length gs \<le> 1"
    by (auto simp add: severalGroups_def sg)
  have run: "drawTurns painter (groupTurns gs + 1) s0 =
     book (turn s0 + (groupTurns gs + 1)) [] (zeroMessages s0 + groupTurns gs)
       (putTogether c rt (foldl (renderGroup painter c rt) s0 gs))"
    by (rule groups_run[OF q r t pend d m])
  have "putTogether c rt (foldl (renderGroup painter c rt) s0 gs)
      = book (turn s) [e] (zeroMessages s + 1) (renderNow painter c rt s)"
    by (simp add: s0_def book_renderGroups book_putTogether renderNow_def gs_def)
  with run have "drawTurns painter (groupTurns gs + 1) s0 =
     book (turn s + (groupTurns gs + 1)) [] (zeroMessages s + (groupTurns gs + 1))
       (renderNow painter c rt s)"
    by (simp add: s0_def)
  also have "\<dots> = (renderNow painter c rt s)
       \<lparr>turn := turn s + (groupTurns gs + 1), zeroMessages := zeroMessages s + (groupTurns gs + 1)\<rparr>"
    using renderNow_idle[OF idle, of painter c rt] by (simp add: book_def)
  finally show ?thesis
    by (simp only: start drawTurnCount_groupTurns gs_def)
qed

lemma paint_step_log:
  "activeDrawCalls (runCall painter (PainterCall l name bb) None s) = activeDrawCalls s \<and>
   callbacks (runCall painter (PainterCall l name bb) None s) = callbacks s"
  by (simp add: runCall_def drawOnLamina_def Let_def)

lemma paintLayers_log:
  "activeDrawCalls (paintLayers painter name bb ls s) = activeDrawCalls s \<and>
   callbacks (paintLayers painter name bb ls s) = callbacks s"
proof (induction ls arbitrary: s)
  case Nil
  then show ?case by (simp add: paintLayers_def)
next
  case (Cons l ls)
  show ?case using Cons[of "runCall painter (PainterCall l name bb) None s"]
      paint_step_log[of painter l name bb s]
    by (simp add: paintLayers_Cons)
qed

lemma renderGroup_log:
  "activeDrawCalls (renderGroup painter c rt s g) = activeDrawCalls s \<and>
   callbacks (renderGroup painter c rt s g) = callbacks s @ progressLog c rt [g]"
  using paintLayers_log[of painter "g_name g" "nextBoxes s" "g_layers g"
      "freshBoxes (drawOnLamina (g_name g) [ClearRect] s)"]
  by (simp add: renderGroup_alt progress_def invokeCallback_def setLaminaRendered_def
      freshBoxes_def drawOnLamina_def progressLog_def)

lemma renderGroups_log:
  "activeDrawCalls (foldl (renderGroup painter c rt) s gs) = activeDrawCalls s \<and>
   callbacks (foldl (renderGroup painter c rt) s gs) = callbacks s @ progressLog c rt gs"
proof (induction gs arbitrary: s)
  case Nil
  then show ?case by (simp add: progressLog_def)
next
  case (Cons g gs)
  show ?case using Cons[of "renderGroup painter c rt s g"] renderGroup_log[of painter c rt s g]
    by (simp add: progressLog_def)
qed

lemma renderNow_outcome:
  "rendered (the_tile (renderNow painter c rt s)) \<and>
   \<not> rendering (the_tile (renderNow painter c rt s)) \<and>
   activeDrawCalls (renderNow painter c rt s) = activeDrawCalls s \<and>
   callbacks (renderNow painter c rt s) =
     callbacks s @ progressLog c rt (filter g_visible (styleGroups s))
       @ [(c, if rt then FinishedTimed else Finished)]"
  using renderGroups_log[of painter c rt "startDraw s" "filter g_visible (styleGroups s)"]
  by (simp add: renderNow_def putTogether_def composite_def invokeCallback_def Let_def startDraw_def)

lemma full_draw_outcome:
  assumes idle: "timeouts s = []"
    and ready: "\<not> canceled (the_tile s)" "loaded (the_tile s)"
      "\<not> rendering (the_tile s)" "\<not> rendered (the_tile s)"
    and fresh: "\<forall>g \<in> set (filter g_visible (styleGroups s)). \<not> laminaRendered s (g_name g)"
    and names: "distinct (map g_name (styleGroups s))"
    and s': "s' = drawTurns painter (drawTurnCount (filter g_visible (styleGroups s))) (drawAll c rt s)"
  shows "rendered (the_tile s') \<and> \<not> rendering (the_tile s') \<and> timeouts s' = [] \<and>
     activeDrawCalls s' = activeDrawCalls s \<and>
     callbacks s' = callbacks s @ progressLog c rt (filter g_visible (styleGroups s))
       @ [(c, if rt then FinishedTimed else Finished)] \<and>
     drawAll c' rt' s' = s'"
proof -
  define n where "n = drawTurnCount (filter g_visible (styleGroups s))"
  have eq: "s' = (renderNow painter c rt s)\<lparr>turn := turn s + n, zeroMessages := zeroMessages s + n\<rparr>"
    unfolding s' n_def by (rule full_draw[OF idle ready fresh names])
  have r: "rendered (the_tile s')" using renderNow_outcome[of painter c rt s] by (simp add: eq)
  then have "drawAll c' rt' s' = s'" by (simp add: drawAll_def)
  then show ?thesis
    using renderNow_outcome[of painter c rt s] renderNow_idle[OF idle, of painter c rt]
    by (simp add: eq)
qed

text \<open>
  Claim C4.  When the tile is canceled, not loaded, rendering or rendered, \<^verbatim>\<open>drawAll\<close> leaves
  the whole state as it is: nothing is drawn, nothing is queued, no counter moves, no
  callback is called.  A \<^verbatim>\<open>drawAll\<close> right after a \<^verbatim>\<open>drawAll\<close> changes nothing, and neither
  does one after \<^verbatim>\<open>putTogether\<close> has marked the tile rendered.  \<^verbatim>\<open>drawGroup\<close> on a lamina that
  is rendered draws nothing and queues nothing; it only calls its callback.  A draw that
  does start (idle scheduler, tile loaded and not canceled, rendering or rendered, no
  lamina of a visible group rendered, group names distinct) is complete after
  \<open>drawTurnCount\<close> turns: the state is that of \<open>renderNow\<close>, every visible group drawn once in
  order, the tile rendered, the final callback called once; a \<^verbatim>\<open>drawAll\<close> on that state
  changes nothing.
\<close>

theorem drawAll_no_op_unless_ready:
  "(canceled (the_tile s) \<or> \<not> loaded (the_tile s) \<or> rendering (the_tile s) \<or> rendered (the_tile s)
      \<longrightarrow> drawAll c rt s = s) \<and>
   drawAll c' rt' (drawAll c rt s) = drawAll c rt s \<and>
   drawAll c' rt' (putTogether c rt s) = putTogether c rt s \<and>
   (laminaRendered s (g_name g) \<longrightarrow>
      drawGroup g (Callback c) s = s\<lparr>callbacks := callbacks s @ [(c, Finished)]\<rparr>) \<and>
   (timeouts s = [] \<and> \<not> canceled (the_tile s) \<and> loaded (the_tile s) \<and>
    \<not> rendering (the_tile s) \<and> \<not> rendered (the_tile s) \<and>
    (\<forall>g \<in> set (filter g_visible (styleGroups s)). \<not> laminaRendered s (g_name g)) \<and>
    distinct (map g_name (styleGroups s)) \<and>
    s' = drawTurns painter (drawTurnCount (filter g_visible (styleGroups s))) (drawAll c rt s)
    \<longrightarrow>
      s' = (renderNow painter c rt s)
             \<lparr>turn := turn s + drawTurnCount (filter g_visible (styleGroups s)),
              zeroMessages := zeroMessages s + drawTurnCount (filter g_visible (styleGroups s))\<rparr> \<and>
      rendered (the_tile s') \<and> \<not> rendering (the_tile s') \<and> timeouts s' = [] \<and>
      activeDrawCalls s' = activeDrawCalls s \<and>
      callbacks s' = callbacks s @ progressLog c rt (filter g_visible (styleGroups s))
        @ [(c, if rt then FinishedTimed else Finished)] \<and>
      drawAll c' rt' s' = s')"
proof -
  have a: "canceled (the_tile s) \<or> \<not> loaded (the_tile s) \<or> rendering (the_tile s) \<or> rendered (the_tile s)
      \<longrightarrow> drawAll c rt s = s"
    using drawAll_guard [of s c rt] by blast
  have b: "drawAll c' rt' (drawAll c rt s) = drawAll c rt s"
    by (rule drawAll_idem)
  have c: "drawAll c' rt' (putTogether c rt s) = putTogether c rt s"
    using drawAll_guard [of "putTogether c rt s" c' rt'] putTogether_rendered [of c rt s] by blast
  have d: "laminaRendered s (g_name g) \<longrightarrow>
      drawGroup g (Callback c) s = s\<lparr>callbacks := callbacks s @ [(c, Finished)]\<rparr>"
    using drawGroup_rendered [of s g c] by blast
  have e: "timeouts s = [] \<and> \<not> canceled (the_tile s) \<and> loaded (the_tile s) \<and>
    \<not> rendering (the_tile s) \<and> \<not> rendered (the_tile s) \<and>
    (\<forall>g \<in> set (filter g_visible (styleGroups s)). \<not> laminaRendered s (g_name g)) \<and>
    distinct (map g_name (styleGroups s)) \<and>
    s' = drawTurns painter (drawTurnCount (filter g_visible (styleGroups s))) (drawAll c rt s)
    \<longrightarrow>
      s' = (renderNow painter c rt s)
             \<lparr>turn := turn s + drawTurnCount (filter g_visible (styleGroups s)),
              zeroMessages := zeroMessages s + drawTurnCount (filter g_visible (styleGroups s))\<rparr> \<and>
      rendered (the_tile s') \<and> \<not> rendering (the_tile s') \<and> timeouts s' = [] \<and>
      activeDrawCalls s' = activeDrawCalls s \<and>
      callbacks s' = callbacks s @ progressLog c rt (filter g_visible (styleGroups s))
        @ [(c, if rt then FinishedTimed else Finished)] \<and>
      drawAll c' rt' s' = s'"
  proof (intro impI, elim conjE)
    assume h: "timeouts s = []" "\<not> canceled (the_tile s)" "loaded (the_tile s)"
      "\<not> rendering (the_tile s)" "\<not> rendered (the_tile s)"
      "\<forall>g \<in> set (filter g_visible (styleGroups s)). \<not> laminaRendered s (g_name g)"
      "distinct (map g_name (styleGroups s))"
      "s' = drawTurns painter (drawTurnCount (filter g_visible (styleGroups s))) (drawAll c rt s)"
    from full_draw[OF h(1-7), of painter c rt] h(8)
    have 1: "s' = (renderNow painter c rt s)
             \<lparr>turn := turn s + drawTurnCount (filter g_visible (styleGroups s)),
              zeroMessages := zeroMessages s + drawTurnCount (filter g_visible (styleGroups s))\<rparr>"
      by simp
    from full_draw_outcome[OF h, of c' rt'] 1
    show "s' = (renderNow painter c rt s)
             \<lparr>turn := turn s + drawTurnCount (filter g_visible (styleGroups s)),
              zeroMessages := zeroMessages s + drawTurnCount (filter g_visible (styleGroups s))\<rparr> \<and>
      rendered (the_tile s') \<and> \<not> rendering (the_tile s') \<and> timeouts s' = [] \<and>
      activeDrawCalls s' = activeDrawCalls s \<and>
      callbacks s' = callbacks s @ progressLog c rt (filter g_visible (styleGroups s))
        @ [(c, if rt then FinishedTimed else Finished)] \<and>
      drawAll c' rt' s' = s'"
      by blast
  qed
  from a b c d e show ?thesis by blast
qed

theorem drawAll_no_op_unless_ready_witness:
  "drawAll 6 False (oneGroup\<lparr>the_tile := readyTile\<lparr>rendered := True\<rparr>\<rparr>)
     = oneGroup\<lparr>the_tile := readyTile\<lparr>rendered := True\<rparr>\<rparr> \<and>
   drawGroup \<lparr>g_name = ''none'', g_visible = True, g_layers = [10, 11]\<rparr> (Callback 5)
       (oneGroup\<lparr>the_tile := readyTile\<lparr>rendered := True\<rparr>\<rparr>)
     = oneGroup\<lparr>the_tile := readyTile\<lparr>rendered := True\<rparr>, callbacks := [(5, Finished)]\<rparr> \<and>
   drawTurns examplePainter 5 (drawAll 5 False oneGroup)
     = oneGroup\<lparr>turn := 5, zeroMessages := 5,
         the_tile := readyTile\<lparr>tile_ops := [ClearRect, Painted 10, Painted 11], rendered := True\<rparr>,
         boundingBoxes := (boundingBoxes oneGroup)(0 := []), nextBoxes := 1,
         callbacks := [(5, Finished)]\<rparr> \<and>
   drawAll 6 False (drawTurns examplePainter 5 (drawAll 5 False oneGroup))
     = drawTurns examplePainter 5 (drawAll 5 False oneGroup)"
proof -
  let ?r = "oneGroup\<lparr>the_tile := readyTile\<lparr>rendered := True\<rparr>\<rparr>"
  let ?g = "\<lparr>g_name = ''none'', g_visible = True, g_layers = [10, 11]\<rparr> :: nat group"
  have n: "drawTurnCount (filter g_visible (styleGroups oneGroup)) = 5"
    by (simp add: oneGroup_def drawTurnCount_def)
  have 1: "drawAll 6 False ?r = ?r"
    using drawAll_no_op_unless_ready [where s = ?r and c = 6 and rt = False]
    by (simp add: oneGroup_def readyTile_def)
  have 2: "drawGroup ?g (Callback 5) ?r = oneGroup\<lparr>the_tile := readyTile\<lparr>rendered := True\<rparr>, callbacks := [(5, Finished)]\<rparr>"
    using drawAll_no_op_unless_ready [where s = ?r and c = 5 and g = ?g]
    by (simp add: oneGroup_def readyTile_def laminaRendered_def severalGroups_def)
  define s' where "s' = drawTurns examplePainter 5 (drawAll 5 False oneGroup)"
  have h: "timeouts oneGroup = [] \<and> \<not> canceled (the_tile oneGroup) \<and> loaded (the_tile oneGroup) \<and>
    \<not> rendering (the_tile oneGroup) \<and> \<not> rendered (the_tile oneGroup) \<and>
    (\<forall>g \<in> set (filter g_visible (styleGroups oneGroup)). \<not> laminaRendered oneGroup (g_name g)) \<and>
    distinct (map g_name (styleGroups oneGroup)) \<and>
    s' = drawTurns examplePainter (drawTurnCount (filter g_visible (styleGroups oneGroup))) (drawAll 5 False oneGroup)"
    by (simp add: n s'_def) (simp add: oneGroup_def readyTile_def laminaRendered_def severalGroups_def)
  from drawAll_no_op_unless_ready [where s = oneGroup and c = 5 and rt = False and c' = 6 and rt' = False
        and painter = examplePainter and s' = s'] h
  have "s' = (renderNow examplePainter 5 False oneGroup)
             \<lparr>turn := turn oneGroup + drawTurnCount (filter g_visible (styleGroups oneGroup)),
              zeroMessages := zeroMessages oneGroup + drawTurnCount (filter g_visible (styleGroups oneGroup))\<rparr> \<and>
      drawAll 6 False s' = s'"
    by blast
  then have 3: "drawTurns examplePainter 5 (drawAll 5 False oneGroup)
     = (renderNow examplePainter 5 False oneGroup)\<lparr>turn := turn oneGroup + 5, zeroMessages := zeroMessages oneGroup + 5\<rparr> \<and>
     drawAll 6 False (drawTurns examplePainter 5 (drawAll 5 False oneGroup))
     = drawTurns examplePainter 5 (drawAll 5 False oneGroup)"
    unfolding s'_def n .
  have 4: "(renderNow examplePainter 5 False oneGroup)\<lparr>turn := turn oneGroup + 5, zeroMessages := zeroMessages oneGroup + 5\<rparr>
     = oneGroup\<lparr>turn := 5, zeroMessages := 5,
         the_tile := readyTile\<lparr>tile_ops := [ClearRect, Painted 10, Painted 11], rendered := True\<rparr>,
         boundingBoxes := (boundingBoxes oneGroup)(0 := []), nextBoxes := 1,
         callbacks := [(5, Finished)]\<rparr>"
    by (simp add: oneGroup_def readyTile_def severalGroups_def
      renderNow_def startDraw_def renderGroup_def Let_def drawOnLamina_def paintLayers_def runCall_def
      examplePainter_def setLaminaRendered_def progress_def putTogether_def composite_def
      invokeCallback_def)
  from 3 have "drawTurns examplePainter 5 (drawAll 5 False oneGroup)
     = (renderNow examplePainter 5 False oneGroup)\<lparr>turn := turn oneGroup + 5, zeroMessages := zeroMessages oneGroup + 5\<rparr>"
    by (rule conjunct1)
  then have 5: "drawTurns examplePainter 5 (drawAll 5 False oneGroup)
     = oneGroup\<lparr>turn := 5, zeroMessages := 5,
         the_tile := readyTile\<lparr>tile_ops := [ClearRect, Painted 10, Painted 11], rendered := True\<rparr>,
         boundingBoxes := (boundingBoxes oneGroup)(0 := []), nextBoxes := 1,
         callbacks := [(5, Finished)]\<rparr>"
    using 4 by (rule trans)
  from 3 have 6: "drawAll 6 False (drawTurns examplePainter 5 (drawAll 5 False oneGroup))
     = drawTurns examplePainter 5 (drawAll 5 False oneGroup)"
    by (rule conjunct2)
  from 1 2 5 6 show ?thesis by (intro conjI)
qed

end
